theory Spec2Isabelle
  imports Main "HOL-Library.Sublist"
begin

section \<open>Python values\<close>

text \<open>
  A Python \<open>str\<close> is a sequence of Unicode code points and \<open>len\<close> counts code points,
  so a string is a list of code points. \<open>lit\<close> embeds an ASCII literal of the source.
\<close>

type_synonym pystr = "nat list"

definition lit :: "string \<Rightarrow> pystr" where
  "lit s = map of_char s"

text \<open>
  The values the spreadsheet API hands over are parsed JSON: \<open>None\<close>, booleans, numbers,
  strings, lists and dicts with string keys. A dict is its list of items (keys distinct,
  looked up with \<open>map_of\<close>). A number matters below only through its truth value.
\<close>

datatype json =
    JNull
  | JBool bool
  | JNum int
  | JStr pystr
  | JList "json list"
  | JDict "(pystr \<times> json) list"

datatype py_exn = KeyError | IndexError | TypeError | AttributeError

text \<open>Sequencing of statements that may raise: the first exception ends the block.\<close>

definition and_then :: "py_exn + 'a \<Rightarrow> ('a \<Rightarrow> py_exn + 'b) \<Rightarrow> py_exn + 'b" where
  "and_then m f = (case m of Inl e \<Rightarrow> Inl e | Inr x \<Rightarrow> f x)"

text \<open>\<open>bool(v)\<close>, as used by \<open>if v\<close>, \<open>not v\<close> and \<open>v and w\<close>.\<close>

fun py_truthy :: "json \<Rightarrow> bool" where
  "py_truthy JNull = False"
| "py_truthy (JBool b) = b"
| "py_truthy (JNum n) = (n \<noteq> 0)"
| "py_truthy (JStr s) = (s \<noteq> [])"
| "py_truthy (JList xs) = (xs \<noteq> [])"
| "py_truthy (JDict kvs) = (kvs \<noteq> [])"

text \<open>\<open>d.get(k, default)\<close>: only a dict has the method.\<close>

fun py_get :: "json \<Rightarrow> pystr \<Rightarrow> json \<Rightarrow> py_exn + json" where
  "py_get (JDict kvs) k d = Inr (case map_of kvs k of None \<Rightarrow> d | Some v \<Rightarrow> v)"
| "py_get _ k d = Inl AttributeError"

text \<open>\<open>d[k]\<close> with a string key.\<close>

fun py_item :: "json \<Rightarrow> pystr \<Rightarrow> py_exn + json" where
  "py_item (JDict kvs) k = (case map_of kvs k of None \<Rightarrow> Inl KeyError | Some v \<Rightarrow> Inr v)"
| "py_item _ k = Inl TypeError"

text \<open>\<open>xs[i]\<close> with a non-negative integer index.\<close>

fun py_index :: "json \<Rightarrow> nat \<Rightarrow> py_exn + json" where
  "py_index (JList xs) i = (if i < length xs then Inr (xs ! i) else Inl IndexError)"
| "py_index (JStr s) i = (if i < length s then Inr (JStr [s ! i]) else Inl IndexError)"
| "py_index (JDict kvs) i = Inl KeyError"
| "py_index _ i = Inl TypeError"

fun py_len :: "json \<Rightarrow> py_exn + nat" where
  "py_len (JList xs) = Inr (length xs)"
| "py_len (JStr s) = Inr (length s)"
| "py_len (JDict kvs) = Inr (length kvs)"
| "py_len _ = Inl TypeError"

text \<open>The elements a \<open>for\<close> loop visits: a dict yields its keys, a string its characters.\<close>

fun py_iter :: "json \<Rightarrow> py_exn + json list" where
  "py_iter (JList xs) = Inr xs"
| "py_iter (JDict kvs) = Inr (map (\<lambda>kv. JStr (fst kv)) kvs)"
| "py_iter (JStr s) = Inr (map (\<lambda>c. JStr [c]) s)"
| "py_iter _ = Inl TypeError"

section \<open>Formatting Inspector: \<open>check_cell_strikethrough\<close>\<close>

text \<open>\<open>fmt.get(outer, {}).get('textFormat', {}).get('strikethrough', False)\<close>, as a truth value.\<close>

definition text_format_flag :: "json \<Rightarrow> pystr \<Rightarrow> py_exn + bool" where
  "text_format_flag cell outer =
     and_then (py_get cell outer (JDict [])) (\<lambda>fmt.
     and_then (py_get fmt (lit ''textFormat'') (JDict [])) (\<lambda>text_format.
     and_then (py_get text_format (lit ''strikethrough'') (JBool False)) (\<lambda>v.
     Inr (py_truthy v))))"

text \<open>The loop over \<open>textFormatRuns\<close>: \<open>return True\<close> at the first run that carries the flag.\<close>

fun runs_loop :: "json list \<Rightarrow> py_exn + bool" where
  "runs_loop [] = Inr False"
| "runs_loop (run # runs) =
     and_then (py_get run (lit ''format'') (JDict [])) (\<lambda>run_format.
     and_then (py_get run_format (lit ''strikethrough'') (JBool False)) (\<lambda>v.
     if py_truthy v then Inr True else runs_loop runs))"

text \<open>Lines 91 to 110: the three checks on the located cell, in the source's order.\<close>

definition cell_checks :: "json \<Rightarrow> py_exn + bool" where
  "cell_checks cell =
     and_then (text_format_flag cell (lit ''effectiveFormat'')) (\<lambda>eff.
     if eff then Inr True else
     and_then (text_format_flag cell (lit ''userEnteredFormat'')) (\<lambda>usr.
     if usr then Inr True else
     and_then (py_get cell (lit ''textFormatRuns'') (JList [])) (\<lambda>text_format_runs.
     and_then (py_iter text_format_runs) runs_loop)))"

text \<open>Lines 79 to 110: the body run for the sheet whose title matched.\<close>

definition in_sheet :: "json \<Rightarrow> nat \<Rightarrow> nat \<Rightarrow> py_exn + bool" where
  "in_sheet sheet row_index col_index =
     and_then (py_get sheet (lit ''data'') (JList [])) (\<lambda>grid_data.
     if \<not> py_truthy grid_data then Inr False else
     and_then (py_len grid_data) (\<lambda>n.
     if \<not> n > 0 then Inr False else
     and_then (py_index grid_data 0) (\<lambda>g.
     and_then (py_get g (lit ''rowData'') (JList [])) (\<lambda>row_data.
     and_then (py_len row_data) (\<lambda>nrows.
     if \<not> row_index < nrows then Inr False else
     and_then (py_index row_data row_index) (\<lambda>row.
     and_then (py_get row (lit ''values'') (JList [])) (\<lambda>vals.
     and_then (py_len vals) (\<lambda>ncols.
     if \<not> col_index < ncols then Inr False else
     and_then (py_index vals col_index) cell_checks))))))))"

text \<open>
  The loop over the sheets: the first sheet whose title equals the name decides
  (\<open>break\<close>, then \<open>return False\<close>, unless a check returned \<open>True\<close>).
\<close>

fun sheets_loop :: "json list \<Rightarrow> pystr \<Rightarrow> nat \<Rightarrow> nat \<Rightarrow> py_exn + bool" where
  "sheets_loop [] sheet_name row_index col_index = Inr False"
| "sheets_loop (sheet # sheets) sheet_name row_index col_index =
     and_then (py_item sheet (lit ''properties'')) (\<lambda>props.
     and_then (py_item props (lit ''title'')) (\<lambda>title.
     if title = JStr sheet_name then in_sheet sheet row_index col_index
     else sheets_loop sheets sheet_name row_index col_index))"

text \<open>The \<open>try\<close> block of \<open>check_cell_strikethrough\<close>.\<close>

definition check_cell_try :: "json \<Rightarrow> pystr \<Rightarrow> nat \<Rightarrow> nat \<Rightarrow> py_exn + bool" where
  "check_cell_try formatting_data sheet_name row_index col_index =
     and_then (py_get formatting_data (lit ''sheets'') (JList [])) (\<lambda>sheets.
     and_then (py_iter sheets) (\<lambda>ss.
     sheets_loop ss sheet_name row_index col_index))"

text \<open>The whole function: \<open>except Exception\<close> prints and returns \<open>False\<close>.\<close>

definition check_cell_strikethrough :: "json \<Rightarrow> pystr \<Rightarrow> nat \<Rightarrow> nat \<Rightarrow> bool" where
  "check_cell_strikethrough formatting_data sheet_name row_index col_index =
     (case check_cell_try formatting_data sheet_name row_index col_index of
        Inl e \<Rightarrow> False
      | Inr b \<Rightarrow> b)"

section \<open>Strings\<close>

text \<open>
  \<open>str.isspace\<close> of one code point, the characters \<open>str.strip()\<close> removes: the control
  characters 9 to 13 and 28 to 31, the space, and the Unicode separators.
\<close>

definition py_isspace :: "nat \<Rightarrow> bool" where
  "py_isspace c \<longleftrightarrow>
     (9 \<le> c \<and> c \<le> 13) \<or> (28 \<le> c \<and> c \<le> 32) \<or> c = 133 \<or> c = 160 \<or> c = 5760 \<or>
     (8192 \<le> c \<and> c \<le> 8202) \<or> c = 8232 \<or> c = 8233 \<or> c = 8239 \<or> c = 8287 \<or> c = 12288"

definition strip :: "pystr \<Rightarrow> pystr" where
  "strip s = rev (dropWhile py_isspace (rev (dropWhile py_isspace s)))"

text \<open>\<open>sub in s\<close> for strings: \<open>sub\<close> occurs in \<open>s\<close> as a contiguous piece.\<close>

fun py_in :: "pystr \<Rightarrow> pystr \<Rightarrow> bool" where
  "py_in sub [] = (sub = [])"
| "py_in sub (c # cs) = (prefix sub (c # cs) \<or> py_in sub cs)"

text \<open>
  \<open>s.count(sub)\<close>: the number of non-overlapping occurrences, scanning from the left
  (\<open>len(s) + 1\<close> for the empty \<open>sub\<close>).
\<close>

function py_count :: "pystr \<Rightarrow> pystr \<Rightarrow> nat" where
  "py_count s sub =
     (if sub = [] then Suc (length s)
      else if s = [] then 0
      else if prefix sub s then Suc (py_count (drop (length sub) s) sub)
      else py_count (tl s) sub)"
  by pat_completeness auto
termination
  by (relation "measure (\<lambda>(s, sub). length s)") auto

declare py_count.simps [simp del]

text \<open>\<open>str(n)\<close> of a non-negative integer: its decimal digits.\<close>

function str_nat :: "nat \<Rightarrow> pystr" where
  "str_nat n = (if n < 10 then [48 + n] else str_nat (n div 10) @ [48 + n mod 10])"
  by pat_completeness auto
termination
  by (relation "measure (\<lambda>n. n)") auto

declare str_nat.simps [simp del]

section \<open>Text Marker Analyzer: \<open>analyze_text_with_manual_indicators\<close>\<close>

text \<open>
  The vocabulary, as the source file spells it. The two glyph entries are the three code
  points U+201A U+00FA U+00EC and U+201A U+00FA U+00F3 in the file.
\<close>

definition completion_indicators :: "pystr list" where
  "completion_indicators =
     [lit ''[DONE]'', lit ''[COMPLETED]'', lit ''[FINISHED]'', lit ''[COMPLETE]'',
      [8218, 250, 236], [8218, 250, 243], lit ''DONE:'', lit ''COMPLETED:'', lit ''FINISHED:'',
      lit ''(DONE)'', lit ''(COMPLETED)'', lit ''(FINISHED)'',
      lit ''- DONE'', lit ''- COMPLETED'', lit ''- FINISHED'']"

text \<open>
  \<open>str.upper\<close> follows the Unicode case tables of the interpreter; it is the parameter
  \<open>upper\<close>, so every statement below holds for whichever function it is.
  \<open>ascii_upper\<close> is its restriction to ASCII, used to run the model.
\<close>

definition ascii_upper :: "pystr \<Rightarrow> pystr" where
  "ascii_upper s = map (\<lambda>c. if 97 \<le> c \<and> c \<le> 122 then c - 32 else c) s"

fun analyze_text_with_manual_indicators :: "(pystr \<Rightarrow> pystr) \<Rightarrow> json \<Rightarrow> bool" where
  "analyze_text_with_manual_indicators upper (JStr text) =
     (if text = [] then False
      else let text_upper = strip (upper text) in
        if list_ex (\<lambda>indicator. py_in indicator text_upper) completion_indicators then True
        else if py_count text (lit ''~~'') \<ge> 2 then True
        else False)"
| "analyze_text_with_manual_indicators upper _ = False"

section \<open>Question Extractor: \<open>parse_group4_questions\<close>\<close>

datatype source = api_formatting | manual_indicators

record question =
  row_number :: nat
  qtext :: pystr
  is_crossed_out :: bool
  formatting_source :: source

datatype status = success | error

text \<open>
  The result dict. Its keys differ between the branches of the source that build it:
  a key a branch leaves out is \<open>None\<close> here.
\<close>

record result =
  status :: status
  message :: "pystr option"
  timestamp :: pystr
  sheet_url :: "pystr option"
  group4_column_index :: "nat option"
  total_questions :: nat
  done_count :: "nat option"
  todo_count :: "nat option"
  has_new_questions :: bool
  done_questions :: "question list"
  todo_questions :: "question list"
  all_questions :: "question list option"

text \<open>The dict literal of the four error returns (lines 310, 330, 342 and 363).\<close>

definition error_result :: "pystr \<Rightarrow> pystr \<Rightarrow> result" where
  "error_result msg now =
     \<lparr>status = error, message = Some msg, timestamp = now, sheet_url = None,
      group4_column_index = None, total_questions = 0, done_count = None, todo_count = None,
      has_new_questions = False, done_questions = [], todo_questions = [],
      all_questions = None\<rparr>"

text \<open>
  What lines 321 to 327 get from the spreadsheet source: an exception with its message
  \<open>str(e)\<close>, or the pair \<open>(values, formatting_data)\<close>, where \<open>values\<close> is \<open>None\<close> or the
  grid of cell texts.
\<close>

datatype fetched = Raised pystr | Returned "pystr list list option" json

text \<open>The calls of the two detectors, in the order the extractor makes them.\<close>

datatype call = Inspector nat nat | Analyzer pystr

text \<open>The header loop: the index of the first header that contains \<open>Group4\<close>.\<close>

fun find_group4 :: "nat \<Rightarrow> pystr list \<Rightarrow> nat option" where
  "find_group4 i [] = None"
| "find_group4 i (header # rest) =
     (if header \<noteq> [] \<and> py_in (lit ''Group4'') header then Some i
      else find_group4 (Suc i) rest)"

text \<open>
  Lines 386 to 404: the record of one non-empty cell, and the detector calls made
  (\<open>column\<close> is the source's local \<open>group4_column_index\<close>).
\<close>

definition classify_cell ::
  "(pystr \<Rightarrow> pystr) \<Rightarrow> json \<Rightarrow> nat \<Rightarrow> nat \<Rightarrow> pystr \<Rightarrow> question \<times> call list" where
  "classify_cell upper formatting_data row_index column cell_content =
     (let first = check_cell_strikethrough formatting_data (lit ''Questions'') row_index
                    column;
          calls1 = [Inspector row_index column];
          (has_strikethrough, calls2) =
            (if \<not> first
             then (analyze_text_with_manual_indicators upper (JStr cell_content),
                   calls1 @ [Analyzer cell_content])
             else (first, calls1));
          question_data =
            \<lparr>row_number = row_index + 1,
             qtext = strip cell_content,
             is_crossed_out = has_strikethrough,
             formatting_source =
               (if check_cell_strikethrough formatting_data (lit ''Questions'') row_index
                     column
                then api_formatting else manual_indicators)\<rparr>
      in (question_data, calls2 @ [Inspector row_index column]))"

text \<open>
  The loop over the data rows, from \<open>row_index\<close> on. The state is
  \<open>(group4_data, done_questions, todo_questions)\<close> and the calls made so far.
\<close>

fun rows_loop ::
  "(pystr \<Rightarrow> pystr) \<Rightarrow> json \<Rightarrow> nat \<Rightarrow> nat \<Rightarrow> pystr list list \<Rightarrow>
   (question list \<times> question list \<times> question list) \<times> call list \<Rightarrow>
   (question list \<times> question list \<times> question list) \<times> call list" where
  "rows_loop upper fmt col row_index [] st = st"
| "rows_loop upper fmt col row_index (row # rows) ((group4_data, done, todo), calls) =
     (if col < length row \<and> row ! col \<noteq> [] \<and> strip (row ! col) \<noteq> [] then
        (let (question_data, cs) = classify_cell upper fmt row_index col (row ! col) in
         rows_loop upper fmt col (Suc row_index) rows
           ((group4_data @ [question_data],
             if is_crossed_out question_data then done @ [question_data] else done,
             if is_crossed_out question_data then todo else todo @ [question_data]),
            calls @ cs))
      else rows_loop upper fmt col (Suc row_index) rows ((group4_data, done, todo), calls))"

text \<open>
  The whole function, with the clock reading \<open>now\<close> (\<open>datetime.now().isoformat()\<close>)
  and the outcome of the fetch as inputs. It returns the result and the detector calls.
\<close>

definition parse_group4_run ::
  "(pystr \<Rightarrow> pystr) \<Rightarrow> pystr \<Rightarrow> pystr \<Rightarrow> pystr \<Rightarrow> fetched \<Rightarrow> result \<times> call list" where
  "parse_group4_run upper now url credentials_json outcome =
     (if credentials_json = [] then
        (error_result (lit ''Google credentials required for formatting detection'') now, [])
      else case outcome of
        Raised e \<Rightarrow> (error_result (lit ''Error accessing sheet: '' @ e) now, [])
      | Returned None formatting_data \<Rightarrow>
          (error_result (lit ''No data found in Questions sheet'') now, [])
      | Returned (Some []) formatting_data \<Rightarrow>
          (error_result (lit ''No data found in Questions sheet'') now, [])
      | Returned (Some (header_row # data_rows)) formatting_data \<Rightarrow>
          (case find_group4 0 header_row of
             None \<Rightarrow> (error_result (lit ''Group 4 column not found'') now, [])
           | Some column \<Rightarrow>
               (let ((group4_data, done, todo), calls) =
                      rows_loop upper formatting_data column 1 data_rows
                        (([], [], []), [])
                in (\<lparr>status = success, message = None, timestamp = now,
                     sheet_url = Some url,
                     group4_column_index = Some (column + 1),
                     total_questions = length group4_data,
                     done_count = Some (length done),
                     todo_count = Some (length todo),
                     has_new_questions = (length todo > 0),
                     done_questions = done,
                     todo_questions = todo,
                     all_questions = Some group4_data\<rparr>, calls))))"

definition parse_group4_questions ::
  "(pystr \<Rightarrow> pystr) \<Rightarrow> pystr \<Rightarrow> pystr \<Rightarrow> pystr \<Rightarrow> fetched \<Rightarrow> result" where
  "parse_group4_questions upper now url credentials_json outcome =
     fst (parse_group4_run upper now url credentials_json outcome)"

section \<open>Notification Composer: \<open>send_discord_notification\<close>\<close>

record field =
  f_name :: pystr
  f_value :: pystr
  f_inline :: bool

text \<open>An embed dict; a key the source does not set is \<open>None\<close>.\<close>

record embed =
  e_title :: "pystr option"
  e_description :: "pystr option"
  e_color :: nat
  e_timestamp :: "pystr option"
  e_footer :: "pystr option"
  e_fields :: "field list"

record payload =
  embeds :: "embed list"
  content :: "pystr option"

text \<open>\<open>result[k]\<close> for a key that a result dict may lack.\<close>

definition key :: "'a option \<Rightarrow> py_exn + 'a" where
  "key v = (case v of None \<Rightarrow> Inl KeyError | Some x \<Rightarrow> Inr x)"

text \<open>The glyphs of the source's literals, as the code points the file holds.\<close>

definition glyph_clipboard :: pystr where "glyph_clipboard = [63743, 252, 236, 227]"
definition glyph_new :: pystr where "glyph_new = [63743, 252, 220, 239]"
definition glyph_check :: pystr where "glyph_check = [8218, 250, 214]"
definition glyph_chart :: pystr where "glyph_chart = [63743, 252, 236, 228]"
definition glyph_memo :: pystr where "glyph_memo = [63743, 252, 236, 249]"
definition glyph_alarm :: pystr where "glyph_alarm = [63743, 252, 246, 174]"
definition glyph_cross :: pystr where "glyph_cross = [8218, 249, 229]"

text \<open>Lines 153 to 161.\<close>

definition red :: nat where "red = 0xFF0000"
definition orange :: nat where "orange = 0xFF9900"
definition green :: nat where "green = 0x00FF00"
definition blue :: nat where "blue = 0x0099FF"

definition embed_color :: "result \<Rightarrow> py_exn + nat" where
  "embed_color r =
     (if status r \<noteq> success then Inr red
      else if has_new_questions r then Inr orange
      else and_then (key (todo_count r)) (\<lambda>n.
        if n = 0 then Inr green else Inr blue))"

text \<open>Lines 200 to 202: one done entry, cut at 60 characters, and the text of the loop.\<close>

definition trimmed_text :: "question \<Rightarrow> pystr" where
  "trimmed_text q = take 60 (qtext q) @ (if length (qtext q) > 60 then lit ''...'' else [])"

definition done_text_of :: "question list \<Rightarrow> pystr" where
  "done_text_of qs =
     foldl (\<lambda>done_text q. done_text @ lit ''~~'' @ trimmed_text q @ lit ''~~'' @ [10]) []
       (drop (length qs - 3) qs)"

text \<open>Lines 175 to 219: the description and the fields of the main embed.\<close>

definition main_body :: "result \<Rightarrow> py_exn + pystr \<times> field list" where
  "main_body r =
     (if status r = success then
        and_then (if has_new_questions r then Inr glyph_new
                  else and_then (key (todo_count r)) (\<lambda>n.
                    Inr (if n = 0 then glyph_check else glyph_chart))) (\<lambda>status_emoji.
        and_then (key (done_count r)) (\<lambda>dc.
        and_then (key (todo_count r)) (\<lambda>tc.
        let summary =
              \<lparr>f_name = glyph_chart @ lit '' Summary'',
               f_value = lit ''**Total Questions:** '' @ str_nat (total_questions r) @ [10] @
                         lit ''**'' @ glyph_check @ lit '' Done:** '' @ str_nat dc @ [10] @
                         lit ''**'' @ glyph_memo @ lit '' Todo:** '' @ str_nat tc,
               f_inline = True\<rparr>;
            fields1 =
              (if has_new_questions r
               then [\<lparr>f_name = glyph_alarm @ lit '' Alert'',
                      f_value = lit ''**'' @ str_nat tc @ lit '' question(s) need attention!**'',
                      f_inline = False\<rparr>, summary]
               else [summary]);
            fields2 =
              (if done_questions r \<noteq> []
               then fields1 @
                    [\<lparr>f_name = glyph_check @ lit '' Recently Completed'',
                      f_value = (if done_text_of (done_questions r) \<noteq> []
                                 then done_text_of (done_questions r) else lit ''None''),
                      f_inline = False\<rparr>]
               else fields1)
        in Inr (status_emoji @ lit '' **Status Update**'', fields2))))
      else
        Inr (glyph_cross @ lit '' **Error occurred**'',
             [\<lparr>f_name = lit ''Error Message'',
               f_value = (case message r of None \<Rightarrow> lit ''Unknown error'' | Some m \<Rightarrow> m),
               f_inline = False\<rparr>]))"

text \<open>Lines 235 to 244 and 257 to 266: an embed that carries one block of todo lines.\<close>

definition todo_embed :: "nat \<Rightarrow> nat \<Rightarrow> pystr \<Rightarrow> embed" where
  "todo_embed color n todo_text =
     \<lparr>e_title = None, e_description = None, e_color = color, e_timestamp = None,
      e_footer = None,
      e_fields = [\<lparr>f_name = glyph_memo @ lit '' Todo Questions ('' @ str_nat n @ lit '')'',
                   f_value = todo_text, f_inline = False\<rparr>]\<rparr>"

definition question_line :: "nat \<Rightarrow> question \<Rightarrow> pystr" where
  "question_line i q = str_nat i @ lit ''. '' @ qtext q @ [10]"

text \<open>
  Lines 229 to 253: the loop over the numbered todo entries. The state is
  \<open>(todo_text, embed_count, closed)\<close>, where \<open>closed\<close> holds the todo embeds appended so far.
\<close>

fun todo_loop ::
  "nat \<Rightarrow> nat \<Rightarrow> question list \<Rightarrow> pystr \<times> nat \<times> embed list \<Rightarrow> pystr \<times> nat \<times> embed list" where
  "todo_loop color i [] st = st"
| "todo_loop color i (q # qs) (todo_text, embed_count, closed) =
     (if length (todo_text @ question_line i q) > 1000
      then todo_loop color (Suc i) qs
             (question_line i q, embed_count + 1,
              closed @ [todo_embed color embed_count todo_text])
      else todo_loop color (Suc i) qs (todo_text @ question_line i q, embed_count, closed))"

text \<open>Lines 224 to 267: the embeds that follow the main one.\<close>

definition todo_embeds :: "result \<Rightarrow> nat \<Rightarrow> py_exn + embed list" where
  "todo_embeds r color =
     (if status r = success \<and> todo_questions r \<noteq> [] then
        (case todo_loop color 1 (todo_questions r) ([], 1, []) of
           (todo_text, embed_count, closed) \<Rightarrow>
             if todo_text \<noteq> [] then
               and_then (if embed_count > 1 then Inr embed_count else key (todo_count r)) (\<lambda>n.
               Inr (closed @ [todo_embed color n todo_text]))
             else Inr closed)
      else Inr [])"

text \<open>Lines 152 to 276: the payload handed to \<open>requests.post\<close>, or the exception raised before.\<close>

definition notification_payload :: "result \<Rightarrow> py_exn + payload" where
  "notification_payload r =
     and_then (embed_color r) (\<lambda>color.
     and_then (main_body r) (\<lambda>(description, fields).
     let main_embed =
           \<lparr>e_title = Some (glyph_clipboard @ lit '' Group 4 Questions Update''),
            e_description = Some description, e_color = color,
            e_timestamp = Some (timestamp r),
            e_footer = Some (lit ''Questions Parser Bot''),
            e_fields = fields\<rparr>
     in
     and_then (todo_embeds r color) (\<lambda>todo.
     Inr \<lparr>embeds = main_embed # todo,
          content =
            (if has_new_questions r \<and> (case todo_count r of None \<Rightarrow> 0 | Some n \<Rightarrow> n) > 3
             then Some (lit ''@here Multiple questions need attention!'') else None)\<rparr>)))"

text \<open>
  The whole function: \<open>post\<close> is the webhook (true when the request went through); any
  exception, of the composition or of the request, makes the function return \<open>False\<close>.
\<close>

definition send_discord_notification :: "pystr \<Rightarrow> result \<Rightarrow> (payload \<Rightarrow> bool) \<Rightarrow> bool" where
  "send_discord_notification webhook_url r post =
     (if webhook_url = [] then False
      else case notification_payload r of Inl e \<Rightarrow> False | Inr p \<Rightarrow> post p)"

section \<open>\<open>main\<close>: the summary record\<close>

record summary =
  s_status :: status
  s_timestamp :: pystr
  s_has_new_questions :: bool
  s_todo_count :: nat
  s_done_count :: nat
  s_total_questions :: nat

text \<open>Lines 456 to 463: \<open>main\<close> reads the counts of every result, outside any \<open>try\<close>.\<close>

definition main_summary :: "result \<Rightarrow> py_exn + summary" where
  "main_summary r =
     and_then (key (todo_count r)) (\<lambda>tc.
     and_then (key (done_count r)) (\<lambda>dc.
     Inr \<lparr>s_status = status r, s_timestamp = timestamp r,
          s_has_new_questions = has_new_questions r,
          s_todo_count = tc, s_done_count = dc,
          s_total_questions = total_questions r\<rparr>))"

section \<open>Auxiliary notions for the statements\<close>

text \<open>
  The cells the row loop keeps, with their grid row index: the target column is in bounds
  for the row and the cell does not trim to the empty string.
\<close>

fun kept_cells :: "nat \<Rightarrow> nat \<Rightarrow> pystr list list \<Rightarrow> (nat \<times> pystr) list" where
  "kept_cells col i [] = []"
| "kept_cells col i (row # rows) =
     (if col < length row \<and> strip (row ! col) \<noteq> [] then [(i, row ! col)] else []) @
     kept_cells col (Suc i) rows"

definition classified ::
  "(pystr \<Rightarrow> pystr) \<Rightarrow> json \<Rightarrow> nat \<Rightarrow> nat \<Rightarrow> pystr list list \<Rightarrow> (question \<times> call list) list" where
  "classified upper fmt col i rows =
     map (\<lambda>(j, cell). classify_cell upper fmt j col cell) (kept_cells col i rows)"

subsection \<open>What a formatting document records\<close>

text \<open>Reading a key of a document that may lack it, or may not be a dict at all.\<close>

fun lookup :: "json \<Rightarrow> pystr \<Rightarrow> json option" where
  "lookup (JDict kvs) k = map_of kvs k"
| "lookup _ k = None"

definition title_of :: "json \<Rightarrow> json option" where
  "title_of sheet =
     (case lookup sheet (lit ''properties'') of
        None \<Rightarrow> None
      | Some props \<Rightarrow> lookup props (lit ''title''))"

text \<open>
  The cell a sheet entry records at a position: the first grid of its \<open>data\<close>, the row of
  \<open>rowData\<close> and the cell of \<open>values\<close>, each present and the index in bounds.
\<close>

definition sheet_cell :: "json \<Rightarrow> nat \<Rightarrow> nat \<Rightarrow> json option" where
  "sheet_cell sheet r c =
     (case lookup sheet (lit ''data'') of
        Some (JList (g # gs)) \<Rightarrow>
          (case lookup g (lit ''rowData'') of
             Some (JList rows) \<Rightarrow>
               if r < length rows then
                 (case lookup (rows ! r) (lit ''values'') of
                    Some (JList cells) \<Rightarrow> if c < length cells then Some (cells ! c) else None
                  | _ \<Rightarrow> None)
               else None
           | _ \<Rightarrow> None)
      | _ \<Rightarrow> None)"

text \<open>The cell the document records for a sheet name: the first sheet entry with that title.\<close>

definition recorded_cell :: "json \<Rightarrow> pystr \<Rightarrow> nat \<Rightarrow> nat \<Rightarrow> json option" where
  "recorded_cell doc name r c =
     (case lookup doc (lit ''sheets'') of
        Some (JList ss) \<Rightarrow>
          (case find (\<lambda>s. title_of s = Some (JStr name)) ss of
             Some sheet \<Rightarrow> sheet_cell sheet r c
           | None \<Rightarrow> None)
      | _ \<Rightarrow> None)"

text \<open>The three sources of the strikethrough signal of a cell.\<close>

definition flag_of :: "json \<Rightarrow> bool" where
  "flag_of fmt = (case lookup fmt (lit ''strikethrough'') of None \<Rightarrow> False | Some v \<Rightarrow> py_truthy v)"

definition format_strike :: "json \<Rightarrow> pystr \<Rightarrow> bool" where
  "format_strike cell outer =
     (case lookup cell outer of
        None \<Rightarrow> False
      | Some fmt \<Rightarrow>
          (case lookup fmt (lit ''textFormat'') of None \<Rightarrow> False | Some tf \<Rightarrow> flag_of tf))"

definition run_strike :: "json \<Rightarrow> bool" where
  "run_strike run = (case lookup run (lit ''format'') of None \<Rightarrow> False | Some f \<Rightarrow> flag_of f)"

definition runs_strike :: "json \<Rightarrow> bool" where
  "runs_strike cell =
     (case lookup cell (lit ''textFormatRuns'') of
        Some (JList runs) \<Rightarrow> list_ex run_strike runs
      | _ \<Rightarrow> False)"

definition carries_strikethrough :: "json \<Rightarrow> bool" where
  "carries_strikethrough cell \<longleftrightarrow>
     format_strike cell (lit ''effectiveFormat'') \<or>
     format_strike cell (lit ''userEnteredFormat'') \<or>
     runs_strike cell"

text \<open>
  Typing of the entries the function reads before it reaches a flag: a format entry that is
  present is a dict whose \<open>textFormat\<close>, if any, is a dict; the runs listed before the
  first flagged run are dicts whose \<open>format\<close>, if any, is a dict; the sheet entries listed
  before the sheet of the name carry a title.
\<close>

fun is_dict :: "json \<Rightarrow> bool" where
  "is_dict (JDict kvs) = True"
| "is_dict _ = False"

definition typed_format :: "json \<Rightarrow> pystr \<Rightarrow> bool" where
  "typed_format cell outer =
     (case lookup cell outer of
        None \<Rightarrow> True
      | Some fmt \<Rightarrow> is_dict fmt \<and>
          (case lookup fmt (lit ''textFormat'') of None \<Rightarrow> True | Some tf \<Rightarrow> is_dict tf))"

definition typed_run :: "json \<Rightarrow> bool" where
  "typed_run run \<longleftrightarrow>
     is_dict run \<and> (case lookup run (lit ''format'') of None \<Rightarrow> True | Some f \<Rightarrow> is_dict f)"

definition typed_before_flagged_run :: "json \<Rightarrow> bool" where
  "typed_before_flagged_run cell =
     (case lookup cell (lit ''textFormatRuns'') of
        Some (JList runs) \<Rightarrow> list_all typed_run (takeWhile (\<lambda>run. \<not> run_strike run) runs)
      | _ \<Rightarrow> True)"

definition titled_before :: "json \<Rightarrow> pystr \<Rightarrow> bool" where
  "titled_before doc name =
     (case lookup doc (lit ''sheets'') of
        Some (JList ss) \<Rightarrow>
          list_all (\<lambda>s. title_of s \<noteq> None)
            (takeWhile (\<lambda>s. title_of s \<noteq> Some (JStr name)) ss)
      | _ \<Rightarrow> True)"

subsection \<open>A small sheet to run the model on\<close>

definition struck_cell :: json where
  "struck_cell =
     JDict [(lit ''effectiveFormat'',
             JDict [(lit ''textFormat'', JDict [(lit ''strikethrough'', JBool True)])])]"

definition plain_row :: json where
  "plain_row = JDict [(lit ''values'', JList [JDict [], JDict []])]"

definition example_formatting :: json where
  "example_formatting =
     JDict [(lit ''sheets'',
       JList [JDict [(lit ''properties'', JDict [(lit ''title'', JStr (lit ''Questions''))]),
                     (lit ''data'',
                      JList [JDict [(lit ''rowData'',
                        JList [plain_row,
                               JDict [(lit ''values'', JList [JDict [], struck_cell])],
                               plain_row])]])]])]"

definition example_grid :: "pystr list list" where
  "example_grid =
     [[lit ''Name'', lit ''Group4 (final)''],
      [lit ''a'', lit ''[done] first''],
      [lit ''b'', lit ''  second ''],
      [lit ''c''],
      [lit ''d'', lit ''   ''],
      [lit ''e'', lit ''~~third~~'']]"

definition example_result :: result where
  "example_result =
     \<lparr>status = success, message = None, timestamp = lit ''t'', sheet_url = Some (lit ''u''),
      group4_column_index = Some 2, total_questions = 3, done_count = Some 2,
      todo_count = Some 1, has_new_questions = True,
      done_questions =
        [\<lparr>row_number = 2, qtext = lit ''[done] first'', is_crossed_out = True,
          formatting_source = api_formatting\<rparr>,
         \<lparr>row_number = 6, qtext = lit ''~~third~~'', is_crossed_out = True,
          formatting_source = manual_indicators\<rparr>],
      todo_questions =
        [\<lparr>row_number = 3, qtext = lit ''second'', is_crossed_out = False,
          formatting_source = manual_indicators\<rparr>],
      all_questions = Some
        [\<lparr>row_number = 2, qtext = lit ''[done] first'', is_crossed_out = True,
          formatting_source = api_formatting\<rparr>,
         \<lparr>row_number = 3, qtext = lit ''second'', is_crossed_out = False,
          formatting_source = manual_indicators\<rparr>,
         \<lparr>row_number = 6, qtext = lit ''~~third~~'', is_crossed_out = True,
          formatting_source = manual_indicators\<rparr>]\<rparr>"

text \<open>A document with one sheet and one cell, and cells struck through by the other two sources.\<close>

definition one_cell_doc :: "json \<Rightarrow> json" where
  "one_cell_doc cell =
     JDict [(lit ''sheets'',
       JList [JDict [(lit ''properties'', JDict [(lit ''title'', JStr (lit ''Questions''))]),
                     (lit ''data'',
                      JList [JDict [(lit ''rowData'',
                        JList [JDict [(lit ''values'', JList [cell])]])]])]])]"

definition user_struck_cell :: json where
  "user_struck_cell =
     JDict [(lit ''effectiveFormat'',
             JDict [(lit ''textFormat'', JDict [(lit ''strikethrough'', JBool False)])]),
            (lit ''userEnteredFormat'',
             JDict [(lit ''textFormat'', JDict [(lit ''strikethrough'', JBool True)])])]"

definition run_struck_cell :: json where
  "run_struck_cell =
     JDict [(lit ''textFormatRuns'',
             JList [JDict [(lit ''startIndex'', JNum 0)],
                    JDict [(lit ''startIndex'', JNum 3),
                           (lit ''format'', JDict [(lit ''strikethrough'', JBool True)])]])]"

text \<open>
  Documents on which a lookup raises before the flag is reached: a sheet entry without a
  title listed before the sheet, and cells with \<open>null\<close> where a dict is read.
\<close>

definition untitled_first_doc :: json where
  "untitled_first_doc =
     JDict [(lit ''sheets'',
       JList [JDict [],
              JDict [(lit ''properties'', JDict [(lit ''title'', JStr (lit ''Questions''))]),
                     (lit ''data'',
                      JList [JDict [(lit ''rowData'',
                        JList [JDict [(lit ''values'', JList [struck_cell])]])]])]])]"

definition null_effective_cell :: json where
  "null_effective_cell =
     JDict [(lit ''effectiveFormat'', JNull),
            (lit ''userEnteredFormat'',
             JDict [(lit ''textFormat'', JDict [(lit ''strikethrough'', JBool True)])])]"

definition null_user_cell :: json where
  "null_user_cell =
     JDict [(lit ''userEnteredFormat'', JNull),
            (lit ''textFormatRuns'',
             JList [JDict [(lit ''format'', JDict [(lit ''strikethrough'', JBool True)])]])]"

definition null_run_cell :: json where
  "null_run_cell =
     JDict [(lit ''textFormatRuns'',
             JList [JNull,
                    JDict [(lit ''format'', JDict [(lit ''strikethrough'', JBool True)])]])]"

subsection \<open>What the composed notification shows\<close>

text \<open>
  The fields of the primary block, the value of its "Recently Completed" field if there is
  one, and the text values of the blocks that follow the primary block.
\<close>

definition main_fields :: "result \<Rightarrow> field list" where
  "main_fields r =
     (case notification_payload r of
        Inl e \<Rightarrow> []
      | Inr p \<Rightarrow> (case embeds p of [] \<Rightarrow> [] | main_embed # rest \<Rightarrow> e_fields main_embed))"

definition recently_completed :: "result \<Rightarrow> pystr option" where
  "recently_completed r =
     map_of (map (\<lambda>f. (f_name f, f_value f)) (main_fields r))
       (glyph_check @ lit '' Recently Completed'')"

definition todo_blocks :: "result \<Rightarrow> pystr list" where
  "todo_blocks r =
     (case notification_payload r of
        Inl e \<Rightarrow> []
      | Inr p \<Rightarrow> concat (map (\<lambda>e. map f_value (e_fields e)) (tl (embeds p))))"

text \<open>A grid whose two entries are both unfinished, and the field the composer appends.\<close>

definition todo_only_grid :: "pystr list list" where
  "todo_only_grid = [[lit ''Group4''], [lit ''first''], [lit ''second'']]"

definition todo_only_result :: result where
  "todo_only_result =
     parse_group4_questions ascii_upper (lit ''t'') (lit ''u'') (lit ''c'')
       (Returned (Some todo_only_grid) (JDict []))"

definition completed_field :: "result \<Rightarrow> field" where
  "completed_field r =
     \<lparr>f_name = glyph_check @ lit '' Recently Completed'',
      f_value = (if done_text_of (done_questions r) \<noteq> []
                 then done_text_of (done_questions r) else lit ''None''),
      f_inline = False\<rparr>"

subsection \<open>Packing the todo lines\<close>

text \<open>The numbered lines of the todo entries, counted from \<open>i\<close>.\<close>

fun numbered_lines :: "nat \<Rightarrow> question list \<Rightarrow> pystr list" where
  "numbered_lines i [] = []"
| "numbered_lines i (q # qs) = question_line i q # numbered_lines (Suc i) qs"

text \<open>
  Packing lines into groups: a line joins the current group unless the text of the group
  with the line is longer than 1000 characters, in which case the group is closed.
\<close>

fun pack :: "pystr list \<Rightarrow> pystr list \<Rightarrow> pystr list list" where
  "pack [] cur = [cur]"
| "pack (l # ls) cur =
     (if length (concat cur @ l) > 1000 then cur # pack ls [l] else pack ls (cur @ [l]))"

definition values_of :: "embed list \<Rightarrow> pystr list" where
  "values_of es = concat (map (\<lambda>e. map f_value (e_fields e)) es)"

subsection \<open>More inputs to run the model on\<close>

text \<open>A grid without the target column, and a result with four done entries.\<close>

definition headerless_grid :: "pystr list list" where
  "headerless_grid = [[lit ''Name'', lit ''Group 3''], [lit ''x'', lit ''y'']]"

definition done_entry :: "nat \<Rightarrow> pystr \<Rightarrow> question" where
  "done_entry n t =
     \<lparr>row_number = n, qtext = t, is_crossed_out = True, formatting_source = api_formatting\<rparr>"

definition long_done_result :: result where
  "long_done_result =
     \<lparr>status = success, message = None, timestamp = lit ''t'', sheet_url = Some (lit ''u''),
      group4_column_index = Some 1, total_questions = 4, done_count = Some 4,
      todo_count = Some 0, has_new_questions = False,
      done_questions =
        [done_entry 2 (lit ''old''), done_entry 3 (replicate 75 97),
         done_entry 4 (replicate 40 98), done_entry 5 (lit ''last'')],
      todo_questions = [],
      all_questions = Some
        [done_entry 2 (lit ''old''), done_entry 3 (replicate 75 97),
         done_entry 4 (replicate 40 98), done_entry 5 (lit ''last'')]\<rparr>"

text \<open>
  Results with todo entries only: one oversized entry, three long ones, and an oversized
  entry followed by two short ones.
\<close>

definition todo_entry :: "nat \<Rightarrow> pystr \<Rightarrow> question" where
  "todo_entry n t =
     \<lparr>row_number = n, qtext = t, is_crossed_out = False,
      formatting_source = manual_indicators\<rparr>"

definition todo_result :: "question list \<Rightarrow> result" where
  "todo_result qs =
     \<lparr>status = success, message = None, timestamp = lit ''t'', sheet_url = Some (lit ''u''),
      group4_column_index = Some 1, total_questions = length qs, done_count = Some 0,
      todo_count = Some (length qs), has_new_questions = (length qs > 0),
      done_questions = [], todo_questions = qs, all_questions = Some qs\<rparr>"


definition three_long_result :: result where
  "three_long_result =
     todo_result [todo_entry 2 (replicate 400 97), todo_entry 3 (replicate 400 98),
                  todo_entry 4 (replicate 400 99)]"

definition mixed_result :: result where
  "mixed_result =
     todo_result [todo_entry 2 (replicate 1000 120), todo_entry 3 (lit ''a''),
                  todo_entry 4 (lit ''b'')]"

section \<open>Basic facts\<close>

lemma lit_eq_iff [simp]: "lit a = lit b \<longleftrightarrow> a = b"
  by (simp add: lit_def inj_map_eq_map[OF inj_of_char])

lemma length_lit [simp]: "length (lit s) = length s"
  by (simp add: lit_def)

lemma and_then_Inl [simp]: "and_then (Inl e) f = Inl e"
  by (simp add: and_then_def)

lemma and_then_Inr [simp]: "and_then (Inr x) f = f x"
  by (simp add: and_then_def)

lemma key_simps [simp]: "key None = Inl KeyError" "key (Some x) = Inr x"
  by (simp_all add: key_def)

lemma strip_Nil [simp]: "strip [] = []"
  by (simp add: strip_def)

section \<open>The extractor\<close>

lemma classified_Nil: "classified upper fmt col i [] = []"
  by (simp add: classified_def)

lemma classified_Cons:
  "classified upper fmt col i (row # rows) =
     (if col < length row \<and> strip (row ! col) \<noteq> []
      then [classify_cell upper fmt i col (row ! col)] else []) @
     classified upper fmt col (Suc i) rows"
  by (simp add: classified_def)

lemma rows_loop_eq:
  "rows_loop upper fmt col i rows ((g, d, t), c) =
     (let cls = classified upper fmt col i rows;
          qs = map fst cls
      in ((g @ qs, d @ filter is_crossed_out qs, t @ filter (\<lambda>q. \<not> is_crossed_out q) qs),
          c @ concat (map snd cls)))"
proof (induction rows arbitrary: i g d t c)
  case Nil
  then show ?case by (simp add: classified_Nil)
next
  case (Cons row rows)
  show ?case
  proof (cases "col < length row \<and> strip (row ! col) \<noteq> []")
    case True
    then have ne: "row ! col \<noteq> []" by auto
    obtain q cs where cl: "classify_cell upper fmt i col (row ! col) = (q, cs)"
      by (cases "classify_cell upper fmt i col (row ! col)")
    show ?thesis using True ne cl
      by (simp add: Cons.IH Let_def classified_Cons)
  next
    case False
    then show ?thesis
      by (auto simp add: Cons.IH Let_def classified_Cons)
  qed
qed

lemma kept_cells_index:
  "length pre = i \<Longrightarrow>
   kept_cells col i rows =
     map (\<lambda>k. (k, (pre @ rows) ! k ! col))
       (filter (\<lambda>k. col < length ((pre @ rows) ! k) \<and> strip ((pre @ rows) ! k ! col) \<noteq> [])
          [i..<i + length rows])"
proof (induction rows arbitrary: pre i)
  case Nil
  then show ?case by simp
next
  case (Cons row rows)
  have len: "length (pre @ [row]) = Suc i" using Cons.prems by simp
  have up: "[i..<i + length (row # rows)] = i # [Suc i..<Suc i + length rows]"
    using upt_conv_Cons[of i "i + length (row # rows)"] by simp
  have at: "(pre @ row # rows) ! i = row" using Cons.prems by (simp add: nth_append)
  show ?case
    using Cons.IH[OF len] at by (simp only: up) (simp add: nth_append)
qed


lemma classify_cell_eq:
  "classify_cell upper fmt i col cell =
     (\<lparr>row_number = i + 1, qtext = strip cell,
       is_crossed_out = (check_cell_strikethrough fmt (lit ''Questions'') i col \<or>
                         analyze_text_with_manual_indicators upper (JStr cell)),
       formatting_source =
         (if check_cell_strikethrough fmt (lit ''Questions'') i col
          then api_formatting else manual_indicators)\<rparr>,
      Inspector i col #
        (if check_cell_strikethrough fmt (lit ''Questions'') i col then [] else [Analyzer cell]) @
        [Inspector i col])"
  by (simp add: classify_cell_def Let_def)

lemma classified_index:
  "classified upper fmt col 1 rows =
     map (\<lambda>i. classify_cell upper fmt i col ((header # rows) ! i ! col))
       (filter (\<lambda>i. col < length ((header # rows) ! i) \<and> strip ((header # rows) ! i ! col) \<noteq> [])
          [1..<length (header # rows)])"
proof -
  have one: "length [header] = 1" by simp
  have k: "kept_cells col 1 rows =
      map (\<lambda>k. (k, (header # rows) ! k ! col))
        (filter (\<lambda>k. col < length ((header # rows) ! k) \<and>
                      strip ((header # rows) ! k ! col) \<noteq> [])
           [1..<1 + length rows])"
    using kept_cells_index[OF one, of col rows] by (simp only: append_Cons append_Nil)
  have l: "length (header # rows) = 1 + length rows" by simp
  show ?thesis
    unfolding classified_def k l by (simp only: map_map comp_def prod.case)
qed

lemma parse_success_shape:
  "status (fst (parse_group4_run upper now url creds outcome)) = success \<Longrightarrow>
   \<exists>header rows fmt col. creds \<noteq> [] \<and> outcome = Returned (Some (header # rows)) fmt \<and>
      find_group4 0 header = Some col"
  by (auto simp add: parse_group4_run_def error_result_def
      split: fetched.splits option.splits list.splits prod.splits if_splits)

lemma parse_error_shape:
  "status (fst (parse_group4_run upper now url creds outcome)) \<noteq> success \<Longrightarrow>
   \<exists>msg. parse_group4_run upper now url creds outcome = (error_result msg now, [])"
  by (auto simp add: parse_group4_run_def error_result_def
      split: fetched.splits option.splits list.splits prod.splits if_splits)

lemma parse_run_success:
  assumes "creds \<noteq> []" "find_group4 0 header = Some col"
    and "qs = map fst (classified upper fmt col 1 rows)"
  shows "parse_group4_run upper now url creds (Returned (Some (header # rows)) fmt) =
      (\<lparr>status = success, message = None, timestamp = now, sheet_url = Some url,
        group4_column_index = Some (col + 1), total_questions = length qs,
        done_count = Some (length (filter is_crossed_out qs)),
        todo_count = Some (length (filter (\<lambda>q. \<not> is_crossed_out q) qs)),
        has_new_questions = (length (filter (\<lambda>q. \<not> is_crossed_out q) qs) > 0),
        done_questions = filter is_crossed_out qs,
        todo_questions = filter (\<lambda>q. \<not> is_crossed_out q) qs,
        all_questions = Some qs\<rparr>,
       concat (map snd (classified upper fmt col 1 rows)))"
  unfolding assms(3) using assms(1,2)
  by (simp add: parse_group4_run_def rows_loop_eq Let_def del: length_filter_map)

lemma parse_success_result:
  assumes "r = parse_group4_questions upper now url creds outcome" and "status r = success"
  shows "\<exists>qs. todo_count r = Some (length (todo_questions r)) \<and>
              done_count r = Some (length (done_questions r)) \<and>
              has_new_questions r = (length (todo_questions r) > 0) \<and>
              all_questions r = Some qs \<and> total_questions r = length qs \<and>
              done_questions r = filter is_crossed_out qs \<and>
              todo_questions r = filter (\<lambda>q. \<not> is_crossed_out q) qs"
proof -
  from assms obtain header rows fmt col where
    sh: "creds \<noteq> []" "outcome = Returned (Some (header # rows)) fmt"
        "find_group4 0 header = Some col"
    using parse_success_shape[of upper now url creds outcome]
    by (auto simp add: parse_group4_questions_def)
  show ?thesis
    unfolding assms(1) parse_group4_questions_def sh(2) parse_run_success[OF sh(1) sh(3) refl]
    by simp
qed

lemma example_run:
  "parse_group4_run ascii_upper (lit ''t'') (lit ''u'') (lit ''c'')
     (Returned (Some example_grid) example_formatting) =
   (example_result,
    [Inspector 1 1, Inspector 1 1,
     Inspector 2 1, Analyzer (lit ''  second ''), Inspector 2 1,
     Inspector 5 1, Analyzer (lit ''~~third~~''), Inspector 5 1])"
  by (simp add: parse_group4_run_def example_grid_def example_formatting_def struck_cell_def
      plain_row_def classify_cell_def check_cell_strikethrough_def check_cell_try_def
      in_sheet_def cell_checks_def text_format_flag_def lit_def strip_def py_isspace_def
      completion_indicators_def ascii_upper_def py_count.simps Let_def example_result_def)

lemma example_parse:
  "example_result =
     parse_group4_questions ascii_upper (lit ''t'') (lit ''u'') (lit ''c'')
       (Returned (Some example_grid) example_formatting)"
  by (simp add: parse_group4_questions_def example_run)

lemma example_success: "status example_result = success"
  by (simp add: example_result_def)

section \<open>The inspector\<close>


lemma py_get_Inr: "py_get d k dflt = Inr v \<Longrightarrow> is_dict d \<and> v = (case lookup d k of None \<Rightarrow> dflt | Some x \<Rightarrow> x)"
  by (cases d) auto

lemma py_get_dict: "is_dict d \<Longrightarrow> py_get d k dflt = Inr (case lookup d k of None \<Rightarrow> dflt | Some x \<Rightarrow> x)"
  by (cases d) auto

lemma py_get_lookup: "lookup d k = Some v \<Longrightarrow> py_get d k dflt = Inr v"
  by (cases d) auto

lemma py_item_Inr: "py_item d k = Inr v \<Longrightarrow> lookup d k = Some v"
  by (cases d) (auto split: option.splits)

lemma py_item_lookup: "lookup d k = Some v \<Longrightarrow> py_item d k = Inr v"
  by (cases d) auto

lemma and_then_Inr_iff: "and_then m f = Inr y \<longleftrightarrow> (\<exists>x. m = Inr x \<and> f x = Inr y)"
  by (cases m) auto

lemma flag_get:
  "py_get tf (lit ''strikethrough'') (JBool False) = Inr v \<Longrightarrow> py_truthy v = flag_of tf"
  by (cases tf) (auto simp add: flag_of_def split: option.splits)

lemma text_format_flag_Inr:
  assumes "text_format_flag cell outer = Inr b"
  shows "b = format_strike cell outer"
proof -
  from assms obtain fmt tf v where
    g1: "py_get cell outer (JDict []) = Inr fmt" and
    g2: "py_get fmt (lit ''textFormat'') (JDict []) = Inr tf" and
    g3: "py_get tf (lit ''strikethrough'') (JBool False) = Inr v" and
    b: "b = py_truthy v"
    by (auto simp add: text_format_flag_def and_then_Inr_iff)
  have f: "b = flag_of tf" using flag_get[OF g3] b by simp
  have e: "flag_of (JDict []) = False" by (simp add: flag_of_def)
  show ?thesis
    using py_get_Inr[OF g1] py_get_Inr[OF g2] f e
    by (auto simp add: format_strike_def split: option.splits)
qed

lemma text_format_flag_typed:
  assumes "is_dict cell" "typed_format cell outer"
  shows "text_format_flag cell outer = Inr (format_strike cell outer)"
proof -
  have "\<exists>b. text_format_flag cell outer = Inr b"
    using assms
    by (cases cell)
       (auto simp add: text_format_flag_def typed_format_def py_get_dict is_dict.simps
             split: option.splits json.splits)
  then show ?thesis using text_format_flag_Inr by blast
qed

lemma runs_loop_Inr: "runs_loop runs = Inr b \<Longrightarrow> b = list_ex run_strike runs"
proof (induction runs)
  case Nil
  then show ?case by simp
next
  case (Cons run runs)
  from Cons.prems obtain f v where
    g1: "py_get run (lit ''format'') (JDict []) = Inr f" and
    g2: "py_get f (lit ''strikethrough'') (JBool False) = Inr v" and
    r: "(if py_truthy v then Inr True else runs_loop runs) = Inr b"
    by (auto simp add: and_then_Inr_iff)
  have fl: "py_truthy v = flag_of f" by (rule flag_get[OF g2])
  have e: "flag_of (JDict []) = False" by (simp add: flag_of_def)
  have rs: "run_strike run = flag_of f"
    using py_get_Inr[OF g1] e by (auto simp add: run_strike_def split: option.splits)
  show ?case
    using r fl rs Cons.IH by (auto split: if_splits)
qed

lemma run_strike_get:
  assumes "run_strike run"
  shows "\<exists>f v. py_get run (lit ''format'') (JDict []) = Inr f \<and>
               py_get f (lit ''strikethrough'') (JBool False) = Inr v \<and> py_truthy v"
proof -
  from assms obtain f where f: "lookup run (lit ''format'') = Some f" and fl: "flag_of f"
    by (auto simp add: run_strike_def split: option.splits)
  from fl obtain v where v: "lookup f (lit ''strikethrough'') = Some v" and t: "py_truthy v"
    by (auto simp add: flag_of_def split: option.splits)
  show ?thesis using py_get_lookup[OF f] py_get_lookup[OF v] t by blast
qed

lemma typed_run_get:
  assumes "typed_run run"
  shows "\<exists>f v. py_get run (lit ''format'') (JDict []) = Inr f \<and>
               py_get f (lit ''strikethrough'') (JBool False) = Inr v"
  using assms
  by (cases run) (auto simp add: typed_run_def py_get_dict split: option.splits json.splits)

lemma runs_loop_typed:
  "list_all typed_run (takeWhile (\<lambda>run. \<not> run_strike run) runs) \<Longrightarrow>
   runs_loop runs = Inr (list_ex run_strike runs)"
proof -
  assume "list_all typed_run (takeWhile (\<lambda>run. \<not> run_strike run) runs)"
  then have "\<exists>b. runs_loop runs = Inr b"
  proof (induction runs)
    case Nil
    then show ?case by auto
  next
    case (Cons run runs)
    show ?case
    proof (cases "run_strike run")
      case True
      from run_strike_get[OF True] obtain f v where
        "py_get run (lit ''format'') (JDict []) = Inr f"
        "py_get f (lit ''strikethrough'') (JBool False) = Inr v" "py_truthy v" by blast
      then show ?thesis by auto
    next
      case False
      then have t: "typed_run run"
        and rest: "list_all typed_run (takeWhile (\<lambda>run. \<not> run_strike run) runs)"
        using Cons.prems by simp_all
      from typed_run_get[OF t] obtain f v where
        g: "py_get run (lit ''format'') (JDict []) = Inr f"
        "py_get f (lit ''strikethrough'') (JBool False) = Inr v" by blast
      from Cons.IH[OF rest] obtain b where "runs_loop runs = Inr b" by blast
      then show ?thesis using g by (cases "py_truthy v") auto
    qed
  qed
  then show ?thesis using runs_loop_Inr by blast
qed

lemma py_iter_Inr_cases:
  assumes "py_iter v = Inr xs"
  shows "v = JList xs \<or> (\<not> (\<exists>ys. v = JList ys) \<and> (xs = [] \<or> (\<forall>x \<in> set xs. \<not> is_dict x)))"
  using assms by (cases v) auto

lemma runs_loop_no_dict:
  "runs \<noteq> [] \<Longrightarrow> \<forall>x \<in> set runs. \<not> is_dict x \<Longrightarrow> runs_loop runs = Inl AttributeError"
  by (cases runs; cases "hd runs") auto

lemma cell_checks_Inr:
  assumes "cell_checks cell = Inr b"
  shows "b = carries_strikethrough cell"
proof -
  from assms obtain eff where
    e: "text_format_flag cell (lit ''effectiveFormat'') = Inr eff" and
    r1: "(if eff then Inr True else
           and_then (text_format_flag cell (lit ''userEnteredFormat'')) (\<lambda>usr.
           if usr then Inr True else
           and_then (py_get cell (lit ''textFormatRuns'') (JList [])) (\<lambda>text_format_runs.
           and_then (py_iter text_format_runs) runs_loop))) = Inr b"
    by (auto simp add: cell_checks_def and_then_Inr_iff)
  have ee: "eff = format_strike cell (lit ''effectiveFormat'')"
    by (rule text_format_flag_Inr[OF e])
  show ?thesis
  proof (cases eff)
    case True
    then show ?thesis using r1 ee by (simp add: carries_strikethrough_def)
  next
    case False
    with r1 obtain usr where
      u: "text_format_flag cell (lit ''userEnteredFormat'') = Inr usr" and
      r2: "(if usr then Inr True else
           and_then (py_get cell (lit ''textFormatRuns'') (JList [])) (\<lambda>text_format_runs.
           and_then (py_iter text_format_runs) runs_loop)) = Inr b"
      by (auto simp add: and_then_Inr_iff)
    have uu: "usr = format_strike cell (lit ''userEnteredFormat'')"
      by (rule text_format_flag_Inr[OF u])
    show ?thesis
    proof (cases usr)
      case True
      then show ?thesis using r2 uu by (simp add: carries_strikethrough_def)
    next
      case usr_false: False
      with r2 obtain v xs where
        g: "py_get cell (lit ''textFormatRuns'') (JList []) = Inr v" and
        it: "py_iter v = Inr xs" and
        rl: "runs_loop xs = Inr b"
        by (auto simp add: and_then_Inr_iff)
      have bx: "b = list_ex run_strike xs" by (rule runs_loop_Inr[OF rl])
      have "runs_strike cell = list_ex run_strike xs"
      proof -
        from py_iter_Inr_cases[OF it] show ?thesis
        proof
          assume "v = JList xs"
          then show ?thesis
            using py_get_Inr[OF g] by (auto simp add: runs_strike_def split: option.splits)
        next
          assume nl: "\<not> (\<exists>ys. v = JList ys) \<and> (xs = [] \<or> (\<forall>x \<in> set xs. \<not> is_dict x))"
          have "xs = []"
          proof (rule ccontr)
            assume "xs \<noteq> []"
            then have "runs_loop xs = Inl AttributeError"
              using nl runs_loop_no_dict by blast
            then show False using rl by simp
          qed
          moreover have "runs_strike cell = False"
            using py_get_Inr[OF g] nl
            by (cases v) (auto simp add: runs_strike_def split: option.splits)
          ultimately show ?thesis by simp
        qed
      qed
      then show ?thesis
        using bx ee uu False usr_false by (simp add: carries_strikethrough_def)
    qed
  qed
qed


lemma py_index_Inr_dict:
  "py_index v i = Inr x \<Longrightarrow> is_dict x \<Longrightarrow> \<exists>xs. v = JList xs \<and> i < length xs \<and> x = xs ! i"
  by (cases v) (auto split: if_splits)

lemma cell_checks_dict: "cell_checks cell = Inr b \<Longrightarrow> is_dict cell"
  by (cases cell) (auto simp add: cell_checks_def text_format_flag_def)

lemma in_sheet_sound:
  assumes "in_sheet sheet r c = Inr True"
  shows "\<exists>cell. sheet_cell sheet r c = Some cell \<and> cell_checks cell = Inr True"
proof -
  from assms obtain gd where
    g1: "py_get sheet (lit ''data'') (JList []) = Inr gd" and
    r1: "(if \<not> py_truthy gd then Inr False else
     and_then (py_len gd) (\<lambda>n.
     if \<not> n > 0 then Inr False else
     and_then (py_index gd 0) (\<lambda>g.
     and_then (py_get g (lit ''rowData'') (JList [])) (\<lambda>row_data.
     and_then (py_len row_data) (\<lambda>nrows.
     if \<not> r < nrows then Inr False else
     and_then (py_index row_data r) (\<lambda>row.
     and_then (py_get row (lit ''values'') (JList [])) (\<lambda>vals.
     and_then (py_len vals) (\<lambda>ncols.
     if \<not> c < ncols then Inr False else
     and_then (py_index vals c) cell_checks)))))))) = Inr True"
    unfolding in_sheet_def and_then_Inr_iff by blast
  from r1 obtain g rd where
    i0: "py_index gd 0 = Inr g" and
    g2: "py_get g (lit ''rowData'') (JList []) = Inr rd" and
    r2: "and_then (py_len rd) (\<lambda>nrows.
     if \<not> r < nrows then Inr False else
     and_then (py_index rd r) (\<lambda>row.
     and_then (py_get row (lit ''values'') (JList [])) (\<lambda>vals.
     and_then (py_len vals) (\<lambda>ncols.
     if \<not> c < ncols then Inr False else
     and_then (py_index vals c) cell_checks)))) = Inr True"
    by (auto simp add: and_then_Inr_iff split: if_splits)
  from r2 obtain row vals where
    i1: "py_index rd r = Inr row" and
    g3: "py_get row (lit ''values'') (JList []) = Inr vals" and
    r3: "and_then (py_len vals) (\<lambda>ncols.
     if \<not> c < ncols then Inr False else
     and_then (py_index vals c) cell_checks) = Inr True"
    by (auto simp add: and_then_Inr_iff split: if_splits)
  from r3 obtain cell where
    i2: "py_index vals c = Inr cell" and cc: "cell_checks cell = Inr True"
    by (auto simp add: and_then_Inr_iff split: if_splits)
  from py_index_Inr_dict[OF i0] py_get_Inr[OF g2] obtain gs where gd: "gd = JList (g # gs)"
    by (cases gd) (auto simp add: neq_Nil_conv nth_Cons')
  from py_index_Inr_dict[OF i1] py_get_Inr[OF g3] obtain rows where
    rd: "rd = JList rows" "r < length rows" "row = rows ! r"
    by auto
  from py_index_Inr_dict[OF i2 cell_checks_dict[OF cc]] obtain cells where
    vs: "vals = JList cells" "c < length cells" "cell = cells ! c"
    by auto
  have l1: "lookup sheet (lit ''data'') = Some (JList (g # gs))"
    using py_get_Inr[OF g1] gd by (auto split: option.splits)
  have l2: "lookup g (lit ''rowData'') = Some (JList rows)"
    using py_get_Inr[OF g2] rd by (auto split: option.splits)
  have l3: "lookup (rows ! r) (lit ''values'') = Some (JList cells)"
    using py_get_Inr[OF g3] rd vs by (auto split: option.splits)
  have "sheet_cell sheet r c = Some cell"
    using l1 l2 l3 rd vs by (simp add: sheet_cell_def)
  then show ?thesis using cc by blast
qed

lemma in_sheet_complete:
  assumes "sheet_cell sheet r c = Some cell"
  shows "in_sheet sheet r c = cell_checks cell"
proof -
  from assms obtain g gs rows cells where
    l1: "lookup sheet (lit ''data'') = Some (JList (g # gs))" and
    l2: "lookup g (lit ''rowData'') = Some (JList rows)" and
    rr: "r < length rows" and
    l3: "lookup (rows ! r) (lit ''values'') = Some (JList cells)" and
    cc: "c < length cells" "cell = cells ! c"
    by (auto simp add: sheet_cell_def split: option.splits json.splits list.splits if_splits)
  show ?thesis
    using rr cc
    by (simp add: in_sheet_def py_get_lookup[OF l1] py_get_lookup[OF l2] py_get_lookup[OF l3])
qed

lemma sheets_loop_sound:
  "sheets_loop ss name r c = Inr True \<Longrightarrow>
   \<exists>sheet. find (\<lambda>s. title_of s = Some (JStr name)) ss = Some sheet \<and>
           in_sheet sheet r c = Inr True"
proof (induction ss)
  case Nil
  then show ?case by simp
next
  case (Cons s ss)
  from Cons.prems obtain props title where
    p: "py_item s (lit ''properties'') = Inr props" and
    t: "py_item props (lit ''title'') = Inr title" and
    r: "(if title = JStr name then in_sheet s r c else sheets_loop ss name r c) = Inr True"
    by (auto simp add: and_then_Inr_iff)
  have ti: "title_of s = Some title"
    using py_item_Inr[OF p] py_item_Inr[OF t] by (simp add: title_of_def)
  show ?case
  proof (cases "title = JStr name")
    case True
    then show ?thesis using r ti by simp
  next
    case False
    then show ?thesis using r ti Cons.IH by simp
  qed
qed

lemma sheets_loop_complete:
  "list_all (\<lambda>s. title_of s \<noteq> None) (takeWhile (\<lambda>s. title_of s \<noteq> Some (JStr name)) ss) \<Longrightarrow>
   find (\<lambda>s. title_of s = Some (JStr name)) ss = Some sheet \<Longrightarrow>
   sheets_loop ss name r c = in_sheet sheet r c"
proof (induction ss)
  case Nil
  then show ?case by simp
next
  case (Cons s ss)
  have "title_of s \<noteq> None" using Cons.prems(1) by (cases "title_of s = Some (JStr name)") auto
  then obtain props title where
    p: "lookup s (lit ''properties'') = Some props" and
    t: "lookup props (lit ''title'') = Some title"
    by (auto simp add: title_of_def split: option.splits)
  have ti: "title_of s = Some title" using p t by (simp add: title_of_def)
  have step: "sheets_loop (s # ss) name r c =
      (if title = JStr name then in_sheet s r c else sheets_loop ss name r c)"
    by (simp add: py_item_lookup[OF p] py_item_lookup[OF t])
  show ?case
  proof (cases "title = JStr name")
    case True
    then have "sheet = s" using Cons.prems(2) ti by simp
    then show ?thesis using True step by simp
  next
    case False
    then have "list_all (\<lambda>s. title_of s \<noteq> None)
        (takeWhile (\<lambda>s. title_of s \<noteq> Some (JStr name)) ss)"
      and "find (\<lambda>s. title_of s = Some (JStr name)) ss = Some sheet"
      using Cons.prems ti by simp_all
    from Cons.IH[OF this] show ?thesis
      using False step by simp
  qed
qed

lemma check_try_sound:
  assumes "check_cell_try doc name r c = Inr True"
  shows "\<exists>cell. recorded_cell doc name r c = Some cell \<and> cell_checks cell = Inr True"
proof -
  from assms obtain v ss where
    g: "py_get doc (lit ''sheets'') (JList []) = Inr v" and
    it: "py_iter v = Inr ss" and
    sl: "sheets_loop ss name r c = Inr True"
    by (auto simp add: check_cell_try_def and_then_Inr_iff)
  from sheets_loop_sound[OF sl] obtain sheet where
    f: "find (\<lambda>s. title_of s = Some (JStr name)) ss = Some sheet" and
    ins: "in_sheet sheet r c = Inr True"
    by blast
  have sd: "is_dict sheet" using ins by (cases sheet) (auto simp add: in_sheet_def)
  have mem: "sheet \<in> set ss" using f by (auto simp add: find_Some_iff)
  have "v = JList ss"
    using py_iter_Inr_cases[OF it] sd mem by auto
  then have "lookup doc (lit ''sheets'') = Some (JList ss)"
    using py_get_Inr[OF g] mem by (auto split: option.splits)
  then have "recorded_cell doc name r c = sheet_cell sheet r c"
    using f by (simp add: recorded_cell_def)
  then show ?thesis using in_sheet_sound[OF ins] by simp
qed

lemma check_try_complete:
  assumes "recorded_cell doc name r c = Some cell" and "titled_before doc name"
  shows "check_cell_try doc name r c = cell_checks cell"
proof -
  from assms(1) obtain ss sheet where
    l: "lookup doc (lit ''sheets'') = Some (JList ss)" and
    f: "find (\<lambda>s. title_of s = Some (JStr name)) ss = Some sheet" and
    sc: "sheet_cell sheet r c = Some cell"
    by (auto simp add: recorded_cell_def split: option.splits json.splits)
  have t: "list_all (\<lambda>s. title_of s \<noteq> None)
      (takeWhile (\<lambda>s. title_of s \<noteq> Some (JStr name)) ss)"
    using assms(2) l by (simp add: titled_before_def)
  show ?thesis
    by (simp add: check_cell_try_def py_get_lookup[OF l] sheets_loop_complete[OF t f]
        in_sheet_complete[OF sc])
qed

lemma check_sound:
  "check_cell_strikethrough doc name r c \<Longrightarrow>
   \<exists>cell. recorded_cell doc name r c = Some cell \<and> carries_strikethrough cell"
proof -
  assume "check_cell_strikethrough doc name r c"
  then have "check_cell_try doc name r c = Inr True"
    by (auto simp add: check_cell_strikethrough_def split: sum.splits)
  from check_try_sound[OF this] obtain cell where
    "recorded_cell doc name r c = Some cell" "cell_checks cell = Inr True" by blast
  then show ?thesis using cell_checks_Inr by blast
qed

lemma lookup_Some_dict: "lookup d k = Some v \<Longrightarrow> is_dict d"
  by (cases d) auto

lemma format_strike_typed:
  "format_strike cell outer \<Longrightarrow> is_dict cell \<and> typed_format cell outer"
  by (auto simp add: format_strike_def typed_format_def flag_of_def
      split: option.splits dest: lookup_Some_dict)

lemma cell_checks_effective:
  assumes "format_strike cell (lit ''effectiveFormat'')"
  shows "cell_checks cell = Inr True"
proof -
  have "text_format_flag cell (lit ''effectiveFormat'') = Inr True"
    using format_strike_typed[OF assms] assms text_format_flag_typed by simp
  then show ?thesis by (simp add: cell_checks_def)
qed

lemma cell_checks_user:
  assumes "typed_format cell (lit ''effectiveFormat'')"
    and "format_strike cell (lit ''userEnteredFormat'')"
  shows "cell_checks cell = Inr True"
proof -
  have d: "is_dict cell" using format_strike_typed[OF assms(2)] by simp
  have e: "text_format_flag cell (lit ''effectiveFormat'') =
      Inr (format_strike cell (lit ''effectiveFormat''))"
    by (rule text_format_flag_typed[OF d assms(1)])
  have u: "text_format_flag cell (lit ''userEnteredFormat'') = Inr True"
    using format_strike_typed[OF assms(2)] assms(2) text_format_flag_typed by simp
  show ?thesis by (simp add: cell_checks_def e u)
qed

lemma cell_checks_runs:
  assumes "typed_format cell (lit ''effectiveFormat'')"
    and "typed_format cell (lit ''userEnteredFormat'')"
    and "typed_before_flagged_run cell" and "runs_strike cell"
  shows "cell_checks cell = Inr True"
proof -
  from assms(4) obtain runs where
    l: "lookup cell (lit ''textFormatRuns'') = Some (JList runs)" and
    ex: "list_ex run_strike runs"
    by (auto simp add: runs_strike_def split: option.splits json.splits)
  have d: "is_dict cell" by (rule lookup_Some_dict[OF l])
  have t: "list_all typed_run (takeWhile (\<lambda>run. \<not> run_strike run) runs)"
    using assms(3) l by (simp add: typed_before_flagged_run_def)
  have e: "text_format_flag cell (lit ''effectiveFormat'') =
      Inr (format_strike cell (lit ''effectiveFormat''))"
    by (rule text_format_flag_typed[OF d assms(1)])
  have u: "text_format_flag cell (lit ''userEnteredFormat'') =
      Inr (format_strike cell (lit ''userEnteredFormat''))"
    by (rule text_format_flag_typed[OF d assms(2)])
  have r: "and_then (py_get cell (lit ''textFormatRuns'') (JList [])) (\<lambda>text_format_runs.
           and_then (py_iter text_format_runs) runs_loop) = Inr True"
    using ex by (simp add: py_get_lookup[OF l] runs_loop_typed[OF t])
  show ?thesis
    by (simp add: cell_checks_def e u r)
qed

lemma one_cell_doc_cell: "recorded_cell (one_cell_doc cell) (lit ''Questions'') 0 0 = Some cell"
  by (simp add: recorded_cell_def one_cell_doc_def title_of_def sheet_cell_def)

lemma one_cell_doc_titled: "titled_before (one_cell_doc cell) (lit ''Questions'')"
  by (simp add: titled_before_def one_cell_doc_def title_of_def)

text \<open>The cases in which the document records no cell at the position.\<close>

lemma recorded_cell_absent:
  "lookup doc (lit ''sheets'') = None \<Longrightarrow> recorded_cell doc name r c = None"
  "lookup doc (lit ''sheets'') = Some (JList ss) \<Longrightarrow>
     \<forall>s \<in> set ss. title_of s \<noteq> Some (JStr name) \<Longrightarrow> recorded_cell doc name r c = None"
proof -
  show "lookup doc (lit ''sheets'') = None \<Longrightarrow> recorded_cell doc name r c = None"
    by (simp add: recorded_cell_def)
  assume l: "lookup doc (lit ''sheets'') = Some (JList ss)"
    and a: "\<forall>s \<in> set ss. title_of s \<noteq> Some (JStr name)"
  have "find (\<lambda>s. title_of s = Some (JStr name)) ss = None"
    using a by (simp add: find_None_iff)
  then show "recorded_cell doc name r c = None"
    using l by (simp add: recorded_cell_def)
qed

lemma sheet_cell_absent:
  "lookup sheet (lit ''data'') = None \<Longrightarrow> sheet_cell sheet r c = None"
  "lookup sheet (lit ''data'') = Some (JList []) \<Longrightarrow> sheet_cell sheet r c = None"
  "lookup sheet (lit ''data'') = Some (JList (g # gs)) \<Longrightarrow>
     lookup g (lit ''rowData'') = None \<Longrightarrow> sheet_cell sheet r c = None"
  "lookup sheet (lit ''data'') = Some (JList (g # gs)) \<Longrightarrow>
     lookup g (lit ''rowData'') = Some (JList rows) \<Longrightarrow> length rows \<le> r \<Longrightarrow>
     sheet_cell sheet r c = None"
  "lookup sheet (lit ''data'') = Some (JList (g # gs)) \<Longrightarrow>
     lookup g (lit ''rowData'') = Some (JList rows) \<Longrightarrow> r < length rows \<Longrightarrow>
     lookup (rows ! r) (lit ''values'') = None \<Longrightarrow> sheet_cell sheet r c = None"
  "lookup sheet (lit ''data'') = Some (JList (g # gs)) \<Longrightarrow>
     lookup g (lit ''rowData'') = Some (JList rows) \<Longrightarrow> r < length rows \<Longrightarrow>
     lookup (rows ! r) (lit ''values'') = Some (JList cells) \<Longrightarrow> length cells \<le> c \<Longrightarrow>
     sheet_cell sheet r c = None"
  by (simp_all add: sheet_cell_def)

section \<open>The analyzer\<close>

text \<open>Counting the delimiter \<open>~~\<close> (code point 126 twice).\<close>

lemma tildes_lit: "lit ''~~'' = [126, 126]"
  by (simp add: lit_def)

lemma count_tildes_Nil: "py_count [] [126, 126] = 0"
  by (subst py_count.simps) simp

lemma count_tildes_hit: "py_count (126 # 126 # s) [126, 126] = Suc (py_count s [126, 126])"
  by (subst py_count.simps) simp

lemma count_tildes_miss:
  "\<not> prefix [126, 126] (c # s) \<Longrightarrow> py_count (c # s) [126, 126] = py_count s [126, 126]"
  by (subst py_count.simps) auto

lemma count_tildes_step:
  "py_count s [126, 126] \<le> py_count (c # s) [126, 126] \<and>
   py_count (c # s) [126, 126] \<le> Suc (py_count s [126, 126])"
proof (induction s arbitrary: c rule: length_induct)
  case (1 s)
  show ?case
  proof (cases "prefix [126, 126] (c # s)")
    case False
    then show ?thesis by (simp add: count_tildes_miss)
  next
    case True
    then obtain s' where s: "c = 126" "s = 126 # s'"
      by (cases s) auto
    have "length s' < length s" using s by simp
    then have ih: "py_count s' [126, 126] \<le> py_count (126 # s') [126, 126]"
      "py_count (126 # s') [126, 126] \<le> Suc (py_count s' [126, 126])"
      using "1.IH" by blast+
    show ?thesis using ih by (simp add: s count_tildes_hit)
  qed
qed

lemma count_tildes_after:
  "Suc (py_count r [126, 126]) \<le> py_count (a @ 126 # 126 # r) [126, 126]"
proof (induction a rule: length_induct)
  case (1 a)
  show ?case
  proof (cases a)
    case Nil
    then show ?thesis by (simp add: count_tildes_hit)
  next
    case (Cons c a')
    show ?thesis
    proof (cases "prefix [126, 126] (c # a' @ 126 # 126 # r)")
      case False
      have "length a' < length a" using Cons by simp
      then have "Suc (py_count r [126, 126]) \<le> py_count (a' @ 126 # 126 # r) [126, 126]"
        using "1.IH" by blast
      then show ?thesis using False by (simp add: Cons count_tildes_miss)
    next
      case True
      show ?thesis
      proof (cases a')
        case Nil
        have "py_count r [126, 126] \<le> py_count (126 # r) [126, 126]"
          using count_tildes_step[of r 126] by simp
        then show ?thesis using True Cons Nil by (simp add: count_tildes_hit)
      next
        case (Cons d a'')
        have "length a'' < length a" using \<open>a = c # a'\<close> Cons by simp
        then have "Suc (py_count r [126, 126]) \<le> py_count (a'' @ 126 # 126 # r) [126, 126]"
          using "1.IH" by blast
        then show ?thesis using True \<open>a = c # a'\<close> Cons by (simp add: count_tildes_hit)
      qed
    qed
  qed
qed

lemma count_two_delimiters:
  "2 \<le> py_count (a @ lit ''~~'' @ b @ lit ''~~'' @ c) (lit ''~~'')"
proof -
  have "Suc (py_count c [126, 126]) \<le> py_count (b @ 126 # 126 # c) [126, 126]"
    by (rule count_tildes_after)
  moreover have "Suc (py_count (b @ 126 # 126 # c) [126, 126])
      \<le> py_count (a @ 126 # 126 # b @ 126 # 126 # c) [126, 126]"
    by (rule count_tildes_after)
  ultimately show ?thesis by (simp add: tildes_lit)
qed

lemma analyze_count:
  "2 \<le> py_count text (lit ''~~'') \<Longrightarrow> analyze_text_with_manual_indicators upper (JStr text)"
proof -
  assume c: "2 \<le> py_count text (lit ''~~'')"
  have "text \<noteq> []"
  proof
    assume "text = []"
    then show False using c by (simp add: tildes_lit count_tildes_Nil)
  qed
  then show ?thesis using c by (simp add: Let_def)
qed

text \<open>
  \<open>str.count\<close> counts occurrences that do not overlap: three tildes in a row hold the
  delimiter once, and alone they are no marker.
\<close>

lemma three_tildes_not_marked:
  "py_count (lit ''~~~'') (lit ''~~'') = 1 \<and>
   \<not> analyze_text_with_manual_indicators ascii_upper (JStr (lit ''~~~''))"
  by (simp add: lit_def py_count.simps completion_indicators_def ascii_upper_def strip_def
      py_isspace_def)

section \<open>The error results and the composer\<close>

lemma error_results_lack_counts:
  assumes "r = parse_group4_questions upper now url creds outcome" and "status r \<noteq> success"
  shows "done_count r = None \<and> todo_count r = None \<and> all_questions r = None \<and>
         total_questions r = 0 \<and> done_questions r = [] \<and> todo_questions r = [] \<and>
         main_summary r = Inl KeyError"
proof -
  from assms obtain msg where "r = error_result msg now"
    using parse_error_shape[of upper now url creds outcome]
    by (auto simp add: parse_group4_questions_def)
  then show ?thesis by (simp add: error_result_def main_summary_def)
qed

lemma todo_only_result_eq:
  "todo_only_result =
     \<lparr>status = success, message = None, timestamp = lit ''t'', sheet_url = Some (lit ''u''),
      group4_column_index = Some 1, total_questions = 2, done_count = Some 0,
      todo_count = Some 2, has_new_questions = True,
      done_questions = [],
      todo_questions =
        [\<lparr>row_number = 2, qtext = lit ''first'', is_crossed_out = False,
          formatting_source = manual_indicators\<rparr>,
         \<lparr>row_number = 3, qtext = lit ''second'', is_crossed_out = False,
          formatting_source = manual_indicators\<rparr>],
      all_questions = Some
        [\<lparr>row_number = 2, qtext = lit ''first'', is_crossed_out = False,
          formatting_source = manual_indicators\<rparr>,
         \<lparr>row_number = 3, qtext = lit ''second'', is_crossed_out = False,
          formatting_source = manual_indicators\<rparr>]\<rparr>"
  by (simp add: todo_only_result_def parse_group4_questions_def parse_group4_run_def
      todo_only_grid_def classify_cell_def check_cell_strikethrough_def check_cell_try_def
      lit_def strip_def py_isspace_def completion_indicators_def ascii_upper_def
      py_count.simps Let_def)

lemma main_body_success:
  assumes "status r = success" "done_count r = Some dc" "todo_count r = Some tc"
  shows "\<exists>desc fs1. main_body r =
            Inr (desc, fs1 @ (if done_questions r \<noteq> [] then [completed_field r] else [])) \<and>
          set (map f_name fs1) \<subseteq> {glyph_alarm @ lit '' Alert'', glyph_chart @ lit '' Summary''}"
proof (cases "has_new_questions r")
  case True
  show ?thesis
    by (cases "done_questions r = []")
       (simp_all add: main_body_def Let_def assms True completed_field_def)
next
  case False
  show ?thesis
    by (cases "done_questions r = []")
       (simp_all add: main_body_def Let_def assms False completed_field_def)
qed

lemma payload_success:
  assumes "status r = success" "done_count r = Some dc" "todo_count r = Some tc"
    and "main_body r = Inr (desc, fs)"
  shows "\<exists>col t. embed_color r = Inr col \<and> todo_embeds r col = Inr t \<and>
     notification_payload r =
       Inr \<lparr>embeds =
             \<lparr>e_title = Some (glyph_clipboard @ lit '' Group 4 Questions Update''),
              e_description = Some desc, e_color = col,
              e_timestamp = Some (timestamp r),
              e_footer = Some (lit ''Questions Parser Bot''),
              e_fields = fs\<rparr> # t,
            content =
              (if has_new_questions r \<and> tc > 3
               then Some (lit ''@here Multiple questions need attention!'') else None)\<rparr>"
proof -
  have "\<exists>col. embed_color r = Inr col"
    by (cases "has_new_questions r"; cases "tc = 0") (simp_all add: embed_color_def assms)
  then obtain col where c: "embed_color r = Inr col" by blast
  have "\<exists>t. todo_embeds r col = Inr t"
  proof (cases "todo_loop col (Suc 0) (todo_questions r) ([], Suc 0, [])")
    case (fields todo_text embed_count closed)
    show ?thesis
      by (cases "todo_questions r = []"; cases "todo_text = []"; cases "embed_count > 1")
         (simp_all add: todo_embeds_def assms fields)
  qed
  then obtain t where t: "todo_embeds r col = Inr t" by blast
  show ?thesis
    by (simp add: notification_payload_def c t assms Let_def)
qed

lemma main_fields_success:
  assumes "status r = success" "done_count r = Some dc" "todo_count r = Some tc"
    and "main_body r = Inr (desc, fs)"
  shows "main_fields r = fs"
  using payload_success[OF assms] by (auto simp add: main_fields_def)

lemma done_text_of_eq:
  "done_text_of qs =
     concat (map (\<lambda>q. lit ''~~'' @ trimmed_text q @ lit ''~~'' @ [10]) (drop (length qs - 3) qs))"
proof -
  have "foldl (\<lambda>done_text q. done_text @ lit ''~~'' @ trimmed_text q @ lit ''~~'' @ [10]) acc xs =
        acc @ concat (map (\<lambda>q. lit ''~~'' @ trimmed_text q @ lit ''~~'' @ [10]) xs)" for acc xs
    by (induction xs arbitrary: acc) simp_all
  then show ?thesis by (simp add: done_text_of_def)
qed

lemma trimmed_text_eq:
  "trimmed_text q = (if length (qtext q) > 60 then take 60 (qtext q) @ lit ''...'' else qtext q)"
  by (simp add: trimmed_text_def)

lemma done_text_nonempty: "qs \<noteq> [] \<Longrightarrow> done_text_of qs \<noteq> []"
proof -
  assume "qs \<noteq> []"
  then have "drop (length qs - 3) qs \<noteq> []" by (cases qs) auto
  then obtain x xs where "drop (length qs - 3) qs = x # xs" by (cases "drop (length qs - 3) qs") auto
  then show ?thesis by (simp add: done_text_of_eq lit_def)
qed

text \<open>
  The value of the "Recently Completed" field: the last three done entries, each cut to 60
  characters with \<open>...\<close> if and only if it is longer, each wrapped in \<open>~~\<close>. The field exists
  only if there are done entries, and its value is never the placeholder.
\<close>

lemma recently_completed_value:
  assumes "status r = success" and "done_count r = Some dc" and "todo_count r = Some tc"
  shows "recently_completed r =
           (if done_questions r = [] then None
            else Some (concat (map (\<lambda>q.
                   lit ''~~'' @
                   (if length (qtext q) > 60 then take 60 (qtext q) @ lit ''...'' else qtext q) @
                   lit ''~~'' @ [10])
                 (drop (length (done_questions r) - 3) (done_questions r)))))"
proof -
  from main_body_success[OF assms] obtain desc fs1 where
    mb: "main_body r =
      Inr (desc, fs1 @ (if done_questions r \<noteq> [] then [completed_field r] else []))" and
    names: "set (map f_name fs1) \<subseteq> {glyph_alarm @ lit '' Alert'', glyph_chart @ lit '' Summary''}"
    by blast
  have mf: "main_fields r = fs1 @ (if done_questions r \<noteq> [] then [completed_field r] else [])"
    by (rule main_fields_success[OF assms mb])
  have neq: "glyph_alarm @ lit '' Alert'' \<noteq> glyph_check @ lit '' Recently Completed''"
    "glyph_chart @ lit '' Summary'' \<noteq> glyph_check @ lit '' Recently Completed''"
    by (simp_all add: glyph_alarm_def glyph_check_def glyph_chart_def)
  have notin: "glyph_check @ lit '' Recently Completed'' \<notin> fst ` set (map (\<lambda>f. (f_name f, f_value f)) fs1)"
    using names neq by (auto simp add: image_iff)
  have m1: "map_of (map (\<lambda>f. (f_name f, f_value f)) fs1)
      (glyph_check @ lit '' Recently Completed'') = None"
    using notin by (simp add: map_of_eq_None_iff)
  show ?thesis
  proof (cases "done_questions r = []")
    case True
    then show ?thesis by (simp add: recently_completed_def mf m1)
  next
    case False
    have dt: "done_text_of (done_questions r) \<noteq> []" by (rule done_text_nonempty[OF False])
    have "recently_completed r = Some (done_text_of (done_questions r))"
      using False dt
      by (simp add: recently_completed_def mf map_add_def[symmetric] m1 completed_field_def
          map_add_Some_iff)
    then show ?thesis
      using False by (simp add: done_text_of_eq trimmed_text_eq)
  qed
qed

lemma long_done_completed:
  "status long_done_result = success \<and> done_count long_done_result = Some 4 \<and>
   todo_count long_done_result = Some 0 \<and>
   recently_completed long_done_result =
     Some (lit ''~~'' @ replicate 60 97 @ lit ''...~~'' @ [10] @
           lit ''~~'' @ replicate 40 98 @ lit ''~~'' @ [10] @
           lit ''~~last~~'' @ [10])"
proof -
  have h: "status long_done_result = success" "done_count long_done_result = Some 4"
    "todo_count long_done_result = Some 0"
    by (simp_all add: long_done_result_def)
  have d: "done_questions long_done_result =
      [done_entry 2 (lit ''old''), done_entry 3 (replicate 75 97),
       done_entry 4 (replicate 40 98), done_entry 5 (lit ''last'')]"
    by (simp add: long_done_result_def)
  have "recently_completed long_done_result =
     Some (lit ''~~'' @ replicate 60 97 @ lit ''...~~'' @ [10] @
           lit ''~~'' @ replicate 40 98 @ lit ''~~'' @ [10] @
           lit ''~~last~~'' @ [10])"
    using recently_completed_value[OF h]
    by (simp add: d done_entry_def lit_def)
  then show ?thesis using h by simp
qed

lemma placeholder_never_shown:
  assumes "status r = success" and "done_count r = Some dc" and "todo_count r = Some tc"
  shows "recently_completed r \<noteq> Some (lit ''None'')"
proof (cases "done_questions r = []")
  case True
  then show ?thesis using recently_completed_value[OF assms] by simp
next
  case False
  then have "drop (length (done_questions r) - 3) (done_questions r) \<noteq> []"
    by (cases "done_questions r") auto
  then obtain q qs where
    d: "drop (length (done_questions r) - 3) (done_questions r) = q # qs"
    by (cases "drop (length (done_questions r) - 3) (done_questions r)") auto
  show ?thesis
    using recently_completed_value[OF assms] False by (simp add: d lit_def)
qed

section \<open>The todo blocks\<close>

lemma numbered_lines_eq:
  "numbered_lines i qs = map (\<lambda>k. question_line (i + k) (qs ! k)) [0..<length qs]"
proof (induction qs arbitrary: i)
  case Nil
  then show ?case by simp
next
  case (Cons q qs)
  have "map (\<lambda>k. question_line (i + k) ((q # qs) ! k)) [0..<length (q # qs)] =
        question_line i q # map (\<lambda>k. question_line (i + k) ((q # qs) ! k)) [Suc 0..<Suc (length qs)]"
    by (simp add: upt_conv_Cons del: upt_Suc)
  also have "map (\<lambda>k. question_line (i + k) ((q # qs) ! k)) [Suc 0..<Suc (length qs)] =
        map (\<lambda>k. question_line (Suc i + k) (qs ! k)) [0..<length qs]"
    by (simp add: map_Suc_upt[symmetric] del: upt_Suc)
  finally show ?case by (simp add: Cons.IH)
qed


lemma pack_nonempty: "pack ls cur \<noteq> []"
  by (induction ls arbitrary: cur) simp_all


lemma pack_bound:
  "length (concat cur) \<le> 1000 \<Longrightarrow> \<forall>l \<in> set ls. length l \<le> 1000 \<Longrightarrow>
   \<forall>g \<in> set (pack ls cur). length (concat g) \<le> 1000"
proof (induction ls arbitrary: cur)
  case Nil
  then show ?case by simp
next
  case (Cons l ls)
  show ?case
  proof (cases "length (concat cur @ l) > 1000")
    case True
    have "\<forall>g \<in> set (pack ls [l]). length (concat g) \<le> 1000"
      using Cons.prems by (intro Cons.IH) simp_all
    then show ?thesis using True Cons.prems(1) by simp
  next
    case False
    have "\<forall>g \<in> set (pack ls (cur @ [l])). length (concat g) \<le> 1000"
      using Cons.prems False by (intro Cons.IH) simp_all
    then show ?thesis using False by simp
  qed
qed


lemma pack_last: "ls \<noteq> [] \<Longrightarrow> \<exists>g. last (pack ls cur) = g @ [last ls]"
proof (induction ls arbitrary: cur)
  case Nil
  then show ?case by simp
next
  case (Cons l ls)
  show ?case
  proof (cases ls)
    case Nil
    then show ?thesis by simp
  next
    case (Cons l' ls')
    then have ne: "ls \<noteq> []" by simp
    show ?thesis
      using Cons.IH[OF ne, of "[l]"] Cons.IH[OF ne, of "cur @ [l]"] ne pack_nonempty
      by (simp)
  qed
qed

lemma values_of_simps:
  "values_of [] = []"
  "values_of (es @ [todo_embed color n t]) = values_of es @ [t]"
  by (simp_all add: values_of_def todo_embed_def)

lemma todo_loop_pack:
  "todo_loop color i qs (concat cur, n, closed) = (t, n', cl) \<Longrightarrow>
   values_of cl @ [t] = values_of closed @ map concat (pack (numbered_lines i qs) cur)"
proof (induction qs arbitrary: i cur n closed)
  case Nil
  then show ?case by simp
next
  case (Cons q qs)
  show ?case
  proof (cases "length (concat cur @ question_line i q) > 1000")
    case True
    have "todo_loop color (Suc i) qs
            (concat [question_line i q], n + 1, closed @ [todo_embed color n (concat cur)]) =
          (t, n', cl)"
      using Cons.prems True by simp
    from Cons.IH[OF this] show ?thesis
      using True by (simp add: values_of_simps)
  next
    case False
    have "todo_loop color (Suc i) qs (concat (cur @ [question_line i q]), n, closed) = (t, n', cl)"
      using Cons.prems False by simp
    from Cons.IH[OF this] show ?thesis
      using False by simp
  qed
qed


lemma numbered_lines_nonempty: "l \<in> set (numbered_lines i qs) \<Longrightarrow> l \<noteq> []"
  by (induction qs arbitrary: i) (auto simp add: question_line_def)

lemma todo_embeds_values:
  assumes "status r = success" "todo_questions r \<noteq> []" "todo_count r = Some tc"
  shows "\<exists>es. todo_embeds r col = Inr es \<and>
           values_of es = map concat (pack (numbered_lines 1 (todo_questions r)) [])"
proof -
  define G where "G = pack (numbered_lines 1 (todo_questions r)) []"
  obtain t n' cl where tl: "todo_loop col 1 (todo_questions r) (concat [], 1, []) = (t, n', cl)"
    by (cases "todo_loop col 1 (todo_questions r) (concat [], 1, [])") auto
  have v: "values_of cl @ [t] = map concat G"
    using todo_loop_pack[OF tl] by (simp add: values_of_simps G_def)
  have ne: "numbered_lines 1 (todo_questions r) \<noteq> []"
    using assms(2) by (cases "todo_questions r") simp_all
  obtain g where lg: "last G = g @ [last (numbered_lines 1 (todo_questions r))]"
    using pack_last[OF ne] unfolding G_def by blast
  have "last (numbered_lines 1 (todo_questions r)) \<noteq> []"
    using ne numbered_lines_nonempty last_in_set by blast
  then have cl_ne: "concat (last G) \<noteq> []" using lg by simp
  have "G \<noteq> []" unfolding G_def by (rule pack_nonempty)
  then have "last (map concat G) = concat (last G)" by (simp add: last_map)
  then have "t = concat (last G)" using v by (metis last_snoc)
  then have t_ne: "t \<noteq> []" using cl_ne by simp
  have tl': "todo_loop col (Suc 0) (todo_questions r) ([], Suc 0, []) = (t, n', cl)"
    using tl by simp
  have "\<exists>n. todo_embeds r col = Inr (cl @ [todo_embed col n t])"
    by (cases "n' > 1") (auto simp add: todo_embeds_def assms tl' t_ne)
  then obtain n where "todo_embeds r col = Inr (cl @ [todo_embed col n t])" by blast
  then show ?thesis using v by (simp add: values_of_simps G_def)
qed

lemma todo_blocks_eq:
  assumes "status r = success" "todo_questions r \<noteq> []"
    "done_count r = Some dc" "todo_count r = Some tc"
  shows "todo_blocks r = map concat (pack (numbered_lines 1 (todo_questions r)) [])"
proof -
  from main_body_success[OF assms(1,3,4)] obtain desc fs where
    mb: "main_body r = Inr (desc, fs)" by blast
  from payload_success[OF assms(1,3,4) mb] obtain col t where
    te: "todo_embeds r col = Inr t" and
    p: "notification_payload r =
       Inr \<lparr>embeds =
             \<lparr>e_title = Some (glyph_clipboard @ lit '' Group 4 Questions Update''),
              e_description = Some desc, e_color = col,
              e_timestamp = Some (timestamp r),
              e_footer = Some (lit ''Questions Parser Bot''),
              e_fields = fs\<rparr> # t,
            content =
              (if has_new_questions r \<and> tc > 3
               then Some (lit ''@here Multiple questions need attention!'') else None)\<rparr>"
    by blast
  from todo_embeds_values[OF assms(1,2,4), of col] te
  have "values_of t = map concat (pack (numbered_lines 1 (todo_questions r)) [])" by simp
  then show ?thesis by (simp add: todo_blocks_def p values_of_def)
qed


lemma three_long_blocks: "map length (todo_blocks three_long_result) = [808, 404]"
  by (simp add: three_long_result_def todo_result_def todo_entry_def todo_blocks_def
      notification_payload_def embed_color_def main_body_def todo_embeds_def todo_embed_def
      question_line_def str_nat.simps Let_def)





lemma greedy_unique:
  assumes "G \<noteq> []" and "hd G = cur @ g0" and "concat (g0 # tl G) = ls"
    and "\<forall>k. Suc k < length G \<longrightarrow>
           G ! Suc k \<noteq> [] \<and> length (concat (G ! k) @ hd (G ! Suc k)) > 1000"
    and "g0 \<noteq> [] \<longrightarrow> length (concat (hd G)) \<le> 1000"
    and "\<forall>k. 0 < k \<and> k < length G \<longrightarrow>
           length (G ! k) = 1 \<or> length (concat (G ! k)) \<le> 1000"
  shows "G = pack ls cur"
  using assms
proof (induction ls arbitrary: cur g0 G)
  case Nil
  have g0: "g0 = []" using Nil.prems(3) by simp
  have "tl G = []"
  proof (rule ccontr)
    assume ne: "tl G \<noteq> []"
    then have "Suc 0 < length G" using Nil.prems(1) by (cases G) auto
    then have "G ! Suc 0 \<noteq> []" using Nil.prems(4) by blast
    moreover have "G ! Suc 0 \<in> set (tl G)"
      using ne Nil.prems(1) by (cases G; cases "tl G") auto
    ultimately show False using Nil.prems(3) by auto
  qed
  then have "G = [cur]" using Nil.prems(1,2) g0 by (cases G) auto
  then show ?case by simp
next
  case (Cons l ls)
  obtain first rest where G: "G = first # rest" using Cons.prems(1) by (cases G) auto
  have first: "first = cur @ g0" using Cons.prems(2) G by simp
  have cc: "g0 @ concat rest = l # ls" using Cons.prems(3) G by simp
  show ?case
  proof (cases g0)
    case Nil
    then have cr: "concat rest = l # ls" using cc by simp
    then have rne: "rest \<noteq> []" by auto
    have s0: "Suc 0 < length G" using G rne by (cases rest) auto
    have b0: "G ! Suc 0 \<noteq> []" "length (concat (G ! 0) @ hd (G ! Suc 0)) > 1000"
      using Cons.prems(4) s0 by blast+
    obtain r1 rest' where rest: "rest = r1 # rest'" using rne by (cases rest) auto
    have r1ne: "r1 \<noteq> []" using b0(1) G rest by simp
    then obtain g1 where r1: "r1 = l # g1" using cr rest by (cases r1) auto
    have ls: "concat (g1 # tl rest) = ls" using cr rest r1 by simp
    have over: "length (concat cur @ l) > 1000"
      using b0(2) G rest r1 first Nil by simp
    have c4: "\<forall>k. Suc k < length rest \<longrightarrow>
           rest ! Suc k \<noteq> [] \<and> length (concat (rest ! k) @ hd (rest ! Suc k)) > 1000"
    proof (intro allI impI)
      fix k assume "Suc k < length rest"
      then have "Suc (Suc k) < length G" using G by simp
      from Cons.prems(4)[rule_format, OF this] show
        "rest ! Suc k \<noteq> [] \<and> length (concat (rest ! k) @ hd (rest ! Suc k)) > 1000"
        using G by simp
    qed
    have c6: "\<forall>k. 0 < k \<and> k < length rest \<longrightarrow>
           length (rest ! k) = 1 \<or> length (concat (rest ! k)) \<le> 1000"
    proof (intro allI impI)
      fix k assume "0 < k \<and> k < length rest"
      then have "0 < Suc k \<and> Suc k < length G" using G by simp
      from Cons.prems(6)[rule_format, OF this] show
        "length (rest ! k) = 1 \<or> length (concat (rest ! k)) \<le> 1000"
        using G by simp
    qed
    have c5: "g1 \<noteq> [] \<longrightarrow> length (concat (hd rest)) \<le> 1000"
    proof
      assume "g1 \<noteq> []"
      then have "length (G ! Suc 0) \<noteq> 1" using G rest r1 by simp
      moreover have "0 < Suc 0 \<and> Suc 0 < length G" using s0 by simp
      ultimately have "length (concat (G ! Suc 0)) \<le> 1000"
        using Cons.prems(6) by blast
      then show "length (concat (hd rest)) \<le> 1000" using G rest by simp
    qed
    have hr: "hd rest = [l] @ g1" using rest r1 by simp
    have "rest = pack ls [l]"
      by (rule Cons.IH[OF rne hr ls c4 c5 c6])
    then show ?thesis using over G first Nil by simp
  next
    case (Cons x g0')
    then have x: "x = l" and ls: "concat (g0' # tl G) = ls" using cc G by simp_all
    have "length (concat (hd G)) \<le> 1000" using Cons.prems(5) Cons by simp
    then have fit: "\<not> length (concat cur @ l) > 1000"
      using Cons.prems(2) Cons x by simp
    have hd': "hd G = (cur @ [l]) @ g0'" using Cons.prems(2) Cons x by simp
    have c5: "g0' \<noteq> [] \<longrightarrow> length (concat (hd G)) \<le> 1000"
      using Cons.prems(5) Cons by simp
    have "G = pack ls (cur @ [l])"
      by (rule Cons.IH[OF Cons.prems(1) hd' ls Cons.prems(4) c5 Cons.prems(6)])
    then show ?thesis using fit by simp
  qed
qed

lemma todo_blocks_determined:
  assumes "status r = success" and "todo_questions r \<noteq> []"
    and "done_count r = Some dc" and "todo_count r = Some tc"
    and "concat groups =
           map (\<lambda>k. question_line (Suc k) (todo_questions r ! k))
             [0..<length (todo_questions r)]"
    and "\<forall>k. Suc k < length groups \<longrightarrow>
           groups ! Suc k \<noteq> [] \<and>
           length (concat (groups ! k) @ hd (groups ! Suc k)) > 1000"
    and "length (concat (groups ! 0)) \<le> 1000"
    and "\<forall>k. 0 < k \<and> k < length groups \<longrightarrow>
           length (groups ! k) = 1 \<or> length (concat (groups ! k)) \<le> 1000"
  shows "todo_blocks r = map concat groups"
proof -
  define ls where "ls = numbered_lines 1 (todo_questions r)"
  have ls_eq: "ls = map (\<lambda>k. question_line (Suc k) (todo_questions r ! k))
                      [0..<length (todo_questions r)]"
    unfolding ls_def numbered_lines_eq by simp
  have "ls \<noteq> []" using assms(2) unfolding ls_def by (cases "todo_questions r") simp_all
  then have ne: "groups \<noteq> []" using assms(5) ls_eq by auto
  have h: "hd groups = [] @ hd groups" by simp
  have c: "concat (hd groups # tl groups) = ls" using ne assms(5) ls_eq by simp
  have f: "hd groups \<noteq> [] \<longrightarrow> length (concat (hd groups)) \<le> 1000"
    using assms(7) ne by (simp add: hd_conv_nth)
  have "groups = pack ls []"
    by (rule greedy_unique[OF ne h c assms(6) f assms(8)])
  then show ?thesis using todo_blocks_eq[OF assms(1-4)] ls_def by simp
qed

lemma mixed_blocks: "map length (todo_blocks mixed_result) = [0, 1004, 10]"
  by (simp add: mixed_result_def todo_result_def todo_entry_def todo_blocks_def
      notification_payload_def embed_color_def main_body_def todo_embeds_def todo_embed_def
      question_line_def str_nat.simps Let_def)

section \<open>C1: the inspector comes first, the analyzer is the fallback\<close>

text \<open>
  Claim C1. In the question extractor, for every non-empty data-row cell the Formatting
  Inspector is called first and the Text Marker Analyzer is called only if the inspector
  returned false (the inspector is then called once more for the provenance tag). The
  record is crossed out if one of the two detectors says so, and whenever the formatting
  signal is true its \<open>formatting_source\<close> is \<open>api_formatting\<close>, whatever the analyzer would
  say about the text.
\<close>

theorem inspector_first_analyzer_fallback:
  assumes "(r, calls) = parse_group4_run upper now url creds outcome" and "status r = success"
  shows "\<exists>values fmt col idxs.
           outcome = Returned (Some values) fmt \<and> values \<noteq> [] \<and>
           find_group4 0 (values ! 0) = Some col \<and>
           idxs = filter (\<lambda>i. col < length (values ! i) \<and> strip (values ! i ! col) \<noteq> [])
                    [1..<length values] \<and>
           calls = concat (map (\<lambda>i.
               Inspector i col #
               (if check_cell_strikethrough fmt (lit ''Questions'') i col then []
                else [Analyzer (values ! i ! col)]) @
               [Inspector i col]) idxs) \<and>
           all_questions r = Some (map (\<lambda>i.
               \<lparr>row_number = i + 1, qtext = strip (values ! i ! col),
                is_crossed_out =
                  (check_cell_strikethrough fmt (lit ''Questions'') i col \<or>
                   analyze_text_with_manual_indicators upper (JStr (values ! i ! col))),
                formatting_source =
                  (if check_cell_strikethrough fmt (lit ''Questions'') i col
                   then api_formatting else manual_indicators)\<rparr>) idxs)"
proof -
  have st: "status (fst (parse_group4_run upper now url creds outcome)) = success"
    using assms by (metis fst_conv)
  then obtain header rows fmt col where
    sh: "creds \<noteq> []" "outcome = Returned (Some (header # rows)) fmt"
        "find_group4 0 header = Some col"
    using parse_success_shape[of upper now url creds outcome] by auto
  have run: "(r, calls) =
      (\<lparr>status = success, message = None, timestamp = now, sheet_url = Some url,
        group4_column_index = Some (col + 1),
        total_questions = length (map fst (classified upper fmt col 1 rows)),
        done_count = Some (length (filter is_crossed_out (map fst (classified upper fmt col 1 rows)))),
        todo_count = Some (length (filter (\<lambda>q. \<not> is_crossed_out q) (map fst (classified upper fmt col 1 rows)))),
        has_new_questions = (length (filter (\<lambda>q. \<not> is_crossed_out q) (map fst (classified upper fmt col 1 rows))) > 0),
        done_questions = filter is_crossed_out (map fst (classified upper fmt col 1 rows)),
        todo_questions = filter (\<lambda>q. \<not> is_crossed_out q) (map fst (classified upper fmt col 1 rows)),
        all_questions = Some (map fst (classified upper fmt col 1 rows))\<rparr>,
       concat (map snd (classified upper fmt col 1 rows)))"
    unfolding assms(1) sh(2) parse_run_success[OF sh(1) sh(3) refl] ..
  have a: "all_questions r = Some (map fst (classified upper fmt col 1 rows))"
    and c: "calls = concat (map snd (classified upper fmt col 1 rows))"
    using run by simp_all
  define idxs where
    "idxs = filter (\<lambda>i. col < length ((header # rows) ! i) \<and>
                         strip ((header # rows) ! i ! col) \<noteq> [])
              [1..<length (header # rows)]"
  have ci: "classified upper fmt col 1 rows =
      map (\<lambda>i. classify_cell upper fmt i col ((header # rows) ! i ! col)) idxs"
    unfolding idxs_def by (rule classified_index)
  show ?thesis
  proof (intro exI conjI)
    show "outcome = Returned (Some (header # rows)) fmt" by (rule sh(2))
    show "header # rows \<noteq> []" by simp
    show "find_group4 0 ((header # rows) ! 0) = Some col" using sh(3) by simp
    show "idxs = filter (\<lambda>i. col < length ((header # rows) ! i) \<and>
                         strip ((header # rows) ! i ! col) \<noteq> [])
              [1..<length (header # rows)]" by (rule idxs_def)
    show "calls = concat (map (\<lambda>i.
               Inspector i col #
               (if check_cell_strikethrough fmt (lit ''Questions'') i col then []
                else [Analyzer ((header # rows) ! i ! col)]) @
               [Inspector i col]) idxs)"
      unfolding c ci by (simp add: comp_def classify_cell_eq)
    show "all_questions r = Some (map (\<lambda>i.
               \<lparr>row_number = i + 1, qtext = strip ((header # rows) ! i ! col),
                is_crossed_out =
                  (check_cell_strikethrough fmt (lit ''Questions'') i col \<or>
                   analyze_text_with_manual_indicators upper (JStr ((header # rows) ! i ! col))),
                formatting_source =
                  (if check_cell_strikethrough fmt (lit ''Questions'') i col
                   then api_formatting else manual_indicators)\<rparr>) idxs)"
      unfolding a ci by (simp add: comp_def classify_cell_eq)
  qed
qed

theorem inspector_first_analyzer_fallback_witness:
  "status example_result = success \<and>
   (\<exists>values fmt col idxs.
      Returned (Some example_grid) example_formatting = Returned (Some values) fmt \<and>
      values \<noteq> [] \<and>
      find_group4 0 (values ! 0) = Some col \<and>
      idxs = filter (\<lambda>i. col < length (values ! i) \<and> strip (values ! i ! col) \<noteq> [])
               [1..<length values] \<and>
      [Inspector 1 1, Inspector 1 1,
       Inspector 2 1, Analyzer (lit ''  second ''), Inspector 2 1,
       Inspector 5 1, Analyzer (lit ''~~third~~''), Inspector 5 1] =
        concat (map (\<lambda>i.
          Inspector i col #
          (if check_cell_strikethrough fmt (lit ''Questions'') i col then []
           else [Analyzer (values ! i ! col)]) @
          [Inspector i col]) idxs) \<and>
      all_questions example_result = Some (map (\<lambda>i.
          \<lparr>row_number = i + 1, qtext = strip (values ! i ! col),
           is_crossed_out =
             (check_cell_strikethrough fmt (lit ''Questions'') i col \<or>
              analyze_text_with_manual_indicators ascii_upper (JStr (values ! i ! col))),
           formatting_source =
             (if check_cell_strikethrough fmt (lit ''Questions'') i col
              then api_formatting else manual_indicators)\<rparr>) idxs))"
  using example_success
    inspector_first_analyzer_fallback[OF example_run[symmetric] example_success]
  by (rule conjI)

section \<open>C2: the error results\<close>

text \<open>
  Claim C2. When the target column cannot be resolved from the header row, or an exception
  occurs while contacting the spreadsheet source, \<open>parse_group4_questions\<close> returns a result
  with status error, a readable message (naming the column when it is unresolvable), empty
  lists and all counts zero. The code evaluated on a grid without the column and on a
  failed fetch: the status, the message, the two lists and \<open>total_questions\<close> are as
  claimed, but the dict has no \<open>done_count\<close>, no \<open>todo_count\<close> and no \<open>all_questions\<close>
  key, and \<open>main\<close>, which reads \<open>result["todo_count"]\<close> of every result, raises \<open>KeyError\<close>.
  \<open>error_results_lack_counts\<close> says the same of every error result.
\<close>

theorem error_result_lacks_counts:
  "parse_group4_questions ascii_upper (lit ''t'') (lit ''u'') (lit ''c'')
     (Returned (Some headerless_grid) (JDict [])) =
   \<lparr>status = error, message = Some (lit ''Group 4 column not found''), timestamp = lit ''t'',
    sheet_url = None, group4_column_index = None, total_questions = 0,
    done_count = None, todo_count = None, has_new_questions = False,
    done_questions = [], todo_questions = [], all_questions = None\<rparr> \<and>
   main_summary (parse_group4_questions ascii_upper (lit ''t'') (lit ''u'') (lit ''c'')
     (Returned (Some headerless_grid) (JDict []))) = Inl KeyError \<and>
   parse_group4_questions ascii_upper (lit ''t'') (lit ''u'') (lit ''c'')
     (Raised (lit ''timed out'')) =
   \<lparr>status = error, message = Some (lit ''Error accessing sheet: timed out''),
    timestamp = lit ''t'',
    sheet_url = None, group4_column_index = None, total_questions = 0,
    done_count = None, todo_count = None, has_new_questions = False,
    done_questions = [], todo_questions = [], all_questions = None\<rparr>"
  by (simp add: parse_group4_questions_def parse_group4_run_def headerless_grid_def
      error_result_def main_summary_def lit_def)

section \<open>C3: the todo entries are packed into blocks\<close>




section \<open>C4: a partial formatting document degrades to "not struck through"\<close>

text \<open>
  Claim C4. \<open>check_cell_strikethrough\<close> never fails on a partially populated formatting
  document. It returns false whenever the document records no cell at the position (the
  sheet is absent, the row or the column index is out of bounds for the recorded grid
  data, or a key on the way to the cell is missing: \<open>recorded_cell_absent\<close> and
  \<open>sheet_cell_absent\<close> list the cases), whenever a lookup inside raises, and whenever the
  recorded cell carries the flag in none of its three sources, be it because the keys are
  missing. The function is a total boolean function: every exception of its body is the
  value false.
\<close>

theorem inspector_degrades_to_false:
  assumes "recorded_cell doc name r c = None \<or>
           (\<exists>e. check_cell_try doc name r c = Inl e) \<or>
           (\<exists>cell. recorded_cell doc name r c = Some cell \<and> \<not> carries_strikethrough cell)"
  shows "check_cell_strikethrough doc name r c = False"
proof (rule ccontr)
  assume "check_cell_strikethrough doc name r c \<noteq> False"
  then have t: "check_cell_strikethrough doc name r c" by simp
  then have "check_cell_try doc name r c = Inr True"
    by (auto simp add: check_cell_strikethrough_def split: sum.splits)
  moreover obtain cell where "recorded_cell doc name r c = Some cell" "carries_strikethrough cell"
    using check_sound[OF t] by blast
  ultimately show False using assms by auto
qed

theorem inspector_degrades_to_false_witness:
  "recorded_cell example_formatting (lit ''Questions'') 7 1 = None \<and>
   check_cell_strikethrough example_formatting (lit ''Questions'') 7 1 = False \<and>
   recorded_cell example_formatting (lit ''Answers'') 1 1 = None \<and>
   check_cell_strikethrough example_formatting (lit ''Answers'') 1 1 = False \<and>
   check_cell_try JNull (lit ''Questions'') 1 1 = Inl AttributeError \<and>
   check_cell_strikethrough JNull (lit ''Questions'') 1 1 = False \<and>
   recorded_cell example_formatting (lit ''Questions'') 0 0 = Some (JDict []) \<and>
   \<not> carries_strikethrough (JDict []) \<and>
   check_cell_strikethrough example_formatting (lit ''Questions'') 0 0 = False"
proof -
  have h1: "recorded_cell example_formatting (lit ''Questions'') 7 1 = None"
    by (simp add: recorded_cell_def example_formatting_def title_of_def sheet_cell_def)
  have h2: "recorded_cell example_formatting (lit ''Answers'') 1 1 = None"
    by (simp add: recorded_cell_def example_formatting_def title_of_def)
  have h3: "check_cell_try JNull (lit ''Questions'') 1 1 = Inl AttributeError"
    by (simp add: check_cell_try_def)
  have h4: "recorded_cell example_formatting (lit ''Questions'') 0 0 = Some (JDict [])"
    by (simp add: recorded_cell_def example_formatting_def title_of_def sheet_cell_def
        plain_row_def)
  have h5: "\<not> carries_strikethrough (JDict [])"
    by (simp add: carries_strikethrough_def format_strike_def runs_strike_def)
  have c1: "check_cell_strikethrough example_formatting (lit ''Questions'') 7 1 = False"
    by (rule inspector_degrades_to_false) (rule disjI1, rule h1)
  have c2: "check_cell_strikethrough example_formatting (lit ''Answers'') 1 1 = False"
    by (rule inspector_degrades_to_false) (rule disjI1, rule h2)
  have c3: "check_cell_strikethrough JNull (lit ''Questions'') 1 1 = False"
    by (rule inspector_degrades_to_false) (rule disjI2, rule disjI1, rule exI, rule h3)
  have c4: "check_cell_strikethrough example_formatting (lit ''Questions'') 0 0 = False"
    by (rule inspector_degrades_to_false)
      (rule disjI2, rule disjI2, rule exI, rule conjI, rule h4, rule h5)
  show ?thesis
    by (intro conjI h1 h2 h3 h4 h5 c1 c2 c3 c4)
qed

section \<open>C5: any of the three sources makes the cell struck through\<close>

text \<open>
  Claim C5, as the code has it. Take a cell that the formatting document records, the sheet
  entries listed before its sheet carrying a title. If the effective-format flag of the
  cell is true, \<open>check_cell_strikethrough\<close> returns true, whatever the other fields of the
  cell are. If the user-entered flag is true it returns true, provided the
  \<open>effectiveFormat\<close> entry, when present, is a dict whose \<open>textFormat\<close>, when present, is a
  dict. If an entry of the format-run list carries the flag it returns true, provided in
  addition the \<open>userEnteredFormat\<close> entry is typed likewise and the runs listed before the
  first flagged one are dicts whose \<open>format\<close>, when present, is a dict. Under the three
  typing conditions the function returns exactly the disjunction of the three sources.
\<close>

theorem inspector_true_when_flagged:
  assumes "recorded_cell doc name r c = Some cell" and "titled_before doc name"
  shows "(format_strike cell (lit ''effectiveFormat'') \<longrightarrow>
            check_cell_strikethrough doc name r c) \<and>
         (typed_format cell (lit ''effectiveFormat'') \<and>
          format_strike cell (lit ''userEnteredFormat'') \<longrightarrow>
            check_cell_strikethrough doc name r c) \<and>
         (typed_format cell (lit ''effectiveFormat'') \<and>
          typed_format cell (lit ''userEnteredFormat'') \<and>
          typed_before_flagged_run cell \<and> runs_strike cell \<longrightarrow>
            check_cell_strikethrough doc name r c) \<and>
         (typed_format cell (lit ''effectiveFormat'') \<and>
          typed_format cell (lit ''userEnteredFormat'') \<and>
          typed_before_flagged_run cell \<longrightarrow>
            check_cell_strikethrough doc name r c = carries_strikethrough cell)"
proof -
  have t: "check_cell_try doc name r c = cell_checks cell"
    by (rule check_try_complete[OF assms])
  have a: "format_strike cell (lit ''effectiveFormat'') \<Longrightarrow>
      check_cell_strikethrough doc name r c"
    by (simp add: check_cell_strikethrough_def t cell_checks_effective)
  have b: "typed_format cell (lit ''effectiveFormat'') \<Longrightarrow>
      format_strike cell (lit ''userEnteredFormat'') \<Longrightarrow>
      check_cell_strikethrough doc name r c"
    by (simp add: check_cell_strikethrough_def t cell_checks_user)
  have e: "typed_format cell (lit ''effectiveFormat'') \<Longrightarrow>
      typed_format cell (lit ''userEnteredFormat'') \<Longrightarrow> typed_before_flagged_run cell \<Longrightarrow>
      runs_strike cell \<Longrightarrow> check_cell_strikethrough doc name r c"
    by (simp add: check_cell_strikethrough_def t cell_checks_runs)
  have s: "check_cell_strikethrough doc name r c \<Longrightarrow> carries_strikethrough cell"
    using check_sound[of doc name r c] assms(1) by auto
  have d: "typed_format cell (lit ''effectiveFormat'') \<Longrightarrow>
      typed_format cell (lit ''userEnteredFormat'') \<Longrightarrow> typed_before_flagged_run cell \<Longrightarrow>
      check_cell_strikethrough doc name r c = carries_strikethrough cell"
    using a b e s unfolding carries_strikethrough_def by blast
  show ?thesis
    using a b d e by blast
qed

theorem inspector_true_when_flagged_witness:
  "recorded_cell (one_cell_doc struck_cell) (lit ''Questions'') 0 0 = Some struck_cell \<and>
   titled_before (one_cell_doc struck_cell) (lit ''Questions'') \<and>
   format_strike struck_cell (lit ''effectiveFormat'') \<and>
   check_cell_strikethrough (one_cell_doc struck_cell) (lit ''Questions'') 0 0 \<and>
   typed_format user_struck_cell (lit ''effectiveFormat'') \<and>
   format_strike user_struck_cell (lit ''userEnteredFormat'') \<and>
   check_cell_strikethrough (one_cell_doc user_struck_cell) (lit ''Questions'') 0 0 \<and>
   typed_format run_struck_cell (lit ''effectiveFormat'') \<and>
   typed_format run_struck_cell (lit ''userEnteredFormat'') \<and>
   typed_before_flagged_run run_struck_cell \<and> runs_strike run_struck_cell \<and>
   check_cell_strikethrough (one_cell_doc run_struck_cell) (lit ''Questions'') 0 0"
proof -
  have e: "format_strike struck_cell (lit ''effectiveFormat'')"
    by (simp add: format_strike_def struck_cell_def flag_of_def)
  have u: "typed_format user_struck_cell (lit ''effectiveFormat'')"
    "format_strike user_struck_cell (lit ''userEnteredFormat'')"
    by (simp_all add: typed_format_def format_strike_def user_struck_cell_def flag_of_def)
  have r: "typed_format run_struck_cell (lit ''effectiveFormat'')"
    "typed_format run_struck_cell (lit ''userEnteredFormat'')"
    "typed_before_flagged_run run_struck_cell" "runs_strike run_struck_cell"
    by (simp_all add: typed_format_def typed_before_flagged_run_def typed_run_def
        runs_strike_def run_strike_def run_struck_cell_def flag_of_def)
  have c1: "check_cell_strikethrough (one_cell_doc struck_cell) (lit ''Questions'') 0 0"
    using inspector_true_when_flagged[OF one_cell_doc_cell one_cell_doc_titled, of struck_cell] e
    by blast
  have c2: "check_cell_strikethrough (one_cell_doc user_struck_cell) (lit ''Questions'') 0 0"
    using inspector_true_when_flagged[OF one_cell_doc_cell one_cell_doc_titled,
        of user_struck_cell] u
    by blast
  have c3: "check_cell_strikethrough (one_cell_doc run_struck_cell) (lit ''Questions'') 0 0"
    using inspector_true_when_flagged[OF one_cell_doc_cell one_cell_doc_titled,
        of run_struck_cell] r
    by blast
  show ?thesis
    by (intro conjI one_cell_doc_cell one_cell_doc_titled e u r c1 c2 c3)
qed

text \<open>
  Claim C5 as stated fails where a lookup raises before the flagged source is read, and
  the \<open>except\<close> clause answers false: an untitled sheet entry listed before the sheet, with
  the cell struck through by its effective format; \<open>effectiveFormat: null\<close> with the
  user-entered flag true; \<open>userEnteredFormat: null\<close> with a flagged run; and a \<open>null\<close> run
  listed before the flagged run.
\<close>

theorem flag_lost_counterexample:
  "recorded_cell untitled_first_doc (lit ''Questions'') 0 0 = Some struck_cell \<and>
   format_strike struck_cell (lit ''effectiveFormat'') \<and>
   \<not> check_cell_strikethrough untitled_first_doc (lit ''Questions'') 0 0 \<and>
   recorded_cell (one_cell_doc null_effective_cell) (lit ''Questions'') 0 0 =
     Some null_effective_cell \<and>
   format_strike null_effective_cell (lit ''userEnteredFormat'') \<and>
   \<not> check_cell_strikethrough (one_cell_doc null_effective_cell) (lit ''Questions'') 0 0 \<and>
   recorded_cell (one_cell_doc null_user_cell) (lit ''Questions'') 0 0 = Some null_user_cell \<and>
   runs_strike null_user_cell \<and>
   \<not> check_cell_strikethrough (one_cell_doc null_user_cell) (lit ''Questions'') 0 0 \<and>
   recorded_cell (one_cell_doc null_run_cell) (lit ''Questions'') 0 0 = Some null_run_cell \<and>
   runs_strike null_run_cell \<and>
   \<not> check_cell_strikethrough (one_cell_doc null_run_cell) (lit ''Questions'') 0 0"
proof -
  have r1: "recorded_cell untitled_first_doc (lit ''Questions'') 0 0 = Some struck_cell"
    by (simp add: recorded_cell_def untitled_first_doc_def title_of_def sheet_cell_def)
  have f1: "format_strike struck_cell (lit ''effectiveFormat'')"
    by (simp add: format_strike_def struck_cell_def flag_of_def)
  have c1: "\<not> check_cell_strikethrough untitled_first_doc (lit ''Questions'') 0 0"
    by (simp add: check_cell_strikethrough_def check_cell_try_def untitled_first_doc_def)
  have f2: "format_strike null_effective_cell (lit ''userEnteredFormat'')"
    by (simp add: format_strike_def null_effective_cell_def flag_of_def)
  have c2: "\<not> check_cell_strikethrough (one_cell_doc null_effective_cell) (lit ''Questions'') 0 0"
    by (simp add: check_cell_strikethrough_def check_cell_try_def one_cell_doc_def
        in_sheet_def cell_checks_def text_format_flag_def null_effective_cell_def)
  have f3: "runs_strike null_user_cell"
    by (simp add: runs_strike_def run_strike_def null_user_cell_def flag_of_def)
  have c3: "\<not> check_cell_strikethrough (one_cell_doc null_user_cell) (lit ''Questions'') 0 0"
    by (simp add: check_cell_strikethrough_def check_cell_try_def one_cell_doc_def
        in_sheet_def cell_checks_def text_format_flag_def null_user_cell_def)
  have f4: "runs_strike null_run_cell"
    by (simp add: runs_strike_def run_strike_def null_run_cell_def flag_of_def)
  have c4: "\<not> check_cell_strikethrough (one_cell_doc null_run_cell) (lit ''Questions'') 0 0"
    by (simp add: check_cell_strikethrough_def check_cell_try_def one_cell_doc_def
        in_sheet_def cell_checks_def text_format_flag_def null_run_cell_def)
  show ?thesis
    by (intro conjI r1 f1 c1 one_cell_doc_cell f2 c2 f3 c3 f4 c4)
qed

section \<open>C6: the analyzer on non-strings and on markdown delimiters\<close>

text \<open>
  Claim C6. \<open>analyze_text_with_manual_indicators\<close> returns false for every input that is
  not a non-empty string, and returns true for every string that holds the two-character
  sequence \<open>~~\<close> at least twice (two occurrences that do not overlap, which is what
  \<open>str.count\<close> counts), whatever the marker vocabulary says and whatever \<open>str.upper\<close> does.
\<close>

theorem analyzer_rejects_and_tildes:
  "(\<not> (\<exists>s. v = JStr s \<and> s \<noteq> []) \<longrightarrow> \<not> analyze_text_with_manual_indicators upper v) \<and>
   (2 \<le> py_count text (lit ''~~'') \<longrightarrow> analyze_text_with_manual_indicators upper (JStr text)) \<and>
   analyze_text_with_manual_indicators upper (JStr (a @ lit ''~~'' @ b @ lit ''~~'' @ c))"
proof (intro conjI impI)
  assume "\<not> (\<exists>s. v = JStr s \<and> s \<noteq> [])"
  then show "\<not> analyze_text_with_manual_indicators upper v"
    by (cases v) auto
next
  assume "2 \<le> py_count text (lit ''~~'')"
  then show "analyze_text_with_manual_indicators upper (JStr text)"
    by (rule analyze_count)
next
  show "analyze_text_with_manual_indicators upper (JStr (a @ lit ''~~'' @ b @ lit ''~~'' @ c))"
    by (rule analyze_count[OF count_two_delimiters])
qed

theorem analyzer_rejects_and_tildes_witness:
  "\<not> (\<exists>s. JNum 7 = JStr s \<and> s \<noteq> []) \<and>
   \<not> analyze_text_with_manual_indicators ascii_upper (JNum 7) \<and>
   2 \<le> py_count (lit ''~~~~'') (lit ''~~'') \<and>
   analyze_text_with_manual_indicators ascii_upper (JStr (lit ''~~~~'')) \<and>
   analyze_text_with_manual_indicators ascii_upper
     (JStr (lit ''fix '' @ lit ''~~'' @ lit ''old'' @ lit ''~~'' @ lit '' text''))"
proof -
  have h1: "\<not> (\<exists>s. JNum 7 = JStr s \<and> s \<noteq> [])" by simp
  have h2: "2 \<le> py_count (lit ''~~~~'') (lit ''~~'')"
    by (simp add: lit_def py_count.simps)
  show ?thesis
    using h1 h2
      analyzer_rejects_and_tildes[of "JNum 7" ascii_upper "lit ''~~~~''" "lit ''fix ''"
        "lit ''old''" "lit '' text''"]
    by blast
qed

section \<open>C7: the "Recently Completed" field\<close>

text \<open>
  Claim C7. The "Recently Completed" field of the primary block holds the last three done
  entries, each cut to 60 characters with an ellipsis if and only if it is longer, each
  wrapped in strikethrough delimiters, and a placeholder is shown when there are no done
  entries. The code evaluated on the result of a sheet with two unfinished entries and no
  done entry: the primary block has the fields Alert and Summary only, so there is no
  "Recently Completed" field, and the placeholder text \<open>None\<close> that line 206 writes is the
  value of no field. The placeholder sits under the guard of line 198, where the done text
  is never empty (\<open>placeholder_never_shown\<close>); for results with done entries
  \<open>recently_completed_value\<close> gives the field the claim describes.
\<close>

theorem no_placeholder_when_nothing_done:
  "status todo_only_result = success \<and> done_questions todo_only_result = [] \<and>
   map f_name (main_fields todo_only_result) =
     [glyph_alarm @ lit '' Alert'', glyph_chart @ lit '' Summary''] \<and>
   lit ''None'' \<notin> set (map f_value (main_fields todo_only_result))"
proof -
  have h: "status todo_only_result = success" "done_count todo_only_result = Some 0"
    "todo_count todo_only_result = Some 2"
    by (simp_all add: todo_only_result_eq)
  have mb: "main_body todo_only_result =
      Inr (glyph_new @ lit '' **Status Update**'',
           [\<lparr>f_name = glyph_alarm @ lit '' Alert'',
             f_value = lit ''**2 question(s) need attention!**'', f_inline = False\<rparr>,
            \<lparr>f_name = glyph_chart @ lit '' Summary'',
             f_value = lit ''**Total Questions:** 2'' @ [10] @
                       lit ''**'' @ glyph_check @ lit '' Done:** 0'' @ [10] @
                       lit ''**'' @ glyph_memo @ lit '' Todo:** 2'',
             f_inline = True\<rparr>])"
    by (simp add: main_body_def todo_only_result_eq Let_def str_nat.simps lit_def)
  have d: "done_questions todo_only_result = []"
    by (simp add: todo_only_result_eq)
  show ?thesis
    by (simp add: main_fields_success[OF h mb] h d lit_def glyph_check_def glyph_memo_def)
qed

section \<open>C8: \<open>has_new_questions\<close> means unfinished entries exist\<close>

text \<open>
  Claim C8. For every success result that \<open>parse_group4_questions\<close> produces,
  \<open>has_new_questions\<close> is true if and only if the todo list is non-empty, which is the same
  as \<open>todo_count > 0\<close>, since \<open>todo_count\<close> is the length of the todo list. The result is a
  function of the current fetch alone: the function has no argument for an earlier run.
\<close>

theorem has_new_questions_iff_todo:
  assumes "r = parse_group4_questions upper now url creds outcome" and "status r = success"
  shows "(has_new_questions r \<longleftrightarrow> todo_questions r \<noteq> []) \<and>
         todo_count r = Some (length (todo_questions r)) \<and>
         (has_new_questions r \<longleftrightarrow> (\<exists>n. todo_count r = Some n \<and> n > 0))"
  using parse_success_result[OF assms] by auto

theorem has_new_questions_iff_todo_witness:
  "status example_result = success \<and>
   (has_new_questions example_result \<longleftrightarrow> todo_questions example_result \<noteq> []) \<and>
   todo_count example_result = Some (length (todo_questions example_result)) \<and>
   (has_new_questions example_result \<longleftrightarrow>
      (\<exists>n. todo_count example_result = Some n \<and> n > 0))"
  using has_new_questions_iff_todo[OF example_parse example_success] example_success
  by simp

section \<open>C9: one record per non-empty target cell\<close>

text \<open>
  Claim C9. In every success result the question records are, in row order, exactly those
  of the data rows (grid index at least 1) whose target-column cell is in bounds and does
  not trim to the empty string; the text of each record is the trimmed cell content and its
  \<open>row_number\<close> is the grid row index plus one.
\<close>

theorem records_exactly_nonempty_cells:
  assumes "r = parse_group4_questions upper now url creds outcome" and "status r = success"
  shows "\<exists>values fmt col qs.
           outcome = Returned (Some values) fmt \<and> values \<noteq> [] \<and>
           find_group4 0 (values ! 0) = Some col \<and>
           all_questions r = Some qs \<and>
           map (\<lambda>q. (row_number q, qtext q)) qs =
             map (\<lambda>i. (i + 1, strip (values ! i ! col)))
               (filter (\<lambda>i. col < length (values ! i) \<and> strip (values ! i ! col) \<noteq> [])
                  [1..<length values])"
proof -
  from assms obtain header rows fmt col where
    sh: "creds \<noteq> []" "outcome = Returned (Some (header # rows)) fmt"
        "find_group4 0 header = Some col"
    using parse_success_shape[of upper now url creds outcome]
    by (auto simp add: parse_group4_questions_def)
  have r: "all_questions r = Some (map fst (classified upper fmt col 1 rows))"
    unfolding assms(1) parse_group4_questions_def sh(2) parse_run_success[OF sh(1) sh(3) refl]
    by simp
  define idxs where
    "idxs = filter (\<lambda>i. col < length ((header # rows) ! i) \<and>
                         strip ((header # rows) ! i ! col) \<noteq> [])
              [1..<length (header # rows)]"
  have ci: "classified upper fmt col 1 rows =
      map (\<lambda>i. classify_cell upper fmt i col ((header # rows) ! i ! col)) idxs"
    unfolding idxs_def by (rule classified_index)
  have m: "map (\<lambda>q. (row_number q, qtext q)) (map fst (classified upper fmt col 1 rows)) =
      map (\<lambda>i. (i + 1, strip ((header # rows) ! i ! col))) idxs"
    unfolding ci by (simp add: comp_def classify_cell_eq)
  show ?thesis
  proof (intro exI conjI)
    show "outcome = Returned (Some (header # rows)) fmt" by (rule sh(2))
    show "header # rows \<noteq> []" by simp
    show "find_group4 0 ((header # rows) ! 0) = Some col" using sh(3) by simp
    show "all_questions r = Some (map fst (classified upper fmt col 1 rows))" by (rule r)
    show "map (\<lambda>q. (row_number q, qtext q)) (map fst (classified upper fmt col 1 rows)) =
      map (\<lambda>i. (i + 1, strip ((header # rows) ! i ! col)))
        (filter (\<lambda>i. col < length ((header # rows) ! i) \<and>
                      strip ((header # rows) ! i ! col) \<noteq> [])
           [1..<length (header # rows)])"
      using m unfolding idxs_def .
  qed
qed

theorem records_exactly_nonempty_cells_witness:
  "status example_result = success \<and>
   (\<exists>values fmt col qs.
      Returned (Some example_grid) example_formatting = Returned (Some values) fmt \<and>
      values \<noteq> [] \<and>
      find_group4 0 (values ! 0) = Some col \<and>
      all_questions example_result = Some qs \<and>
      map (\<lambda>q. (row_number q, qtext q)) qs =
        map (\<lambda>i. (i + 1, strip (values ! i ! col)))
          (filter (\<lambda>i. col < length (values ! i) \<and> strip (values ! i ! col) \<noteq> [])
             [1..<length values]))"
  using example_success records_exactly_nonempty_cells[OF example_parse example_success]
  by (rule conjI)

section \<open>C10: the blue colour is never selected\<close>

text \<open>
  Claim C10. For every result that \<open>parse_group4_questions\<close> produces, the colour the
  composer selects is red when the status is error, orange when the todo list is non-empty
  and green when it is empty; the blue branch is never reached.
\<close>

theorem blue_unreachable:
  assumes r_def: "r = parse_group4_questions upper now url creds outcome"
  shows "embed_color r =
           Inr (if status r = error then red
                else if todo_questions r \<noteq> [] then orange else green) \<and>
         embed_color r \<noteq> Inr blue"
proof (cases "status r = success")
  case True
  show ?thesis
    using parse_success_result[OF r_def True] True
    by (auto simp add: embed_color_def red_def orange_def green_def blue_def)
next
  case False
  then obtain msg where "r = error_result msg now"
    using parse_error_shape[of upper now url creds outcome]
    by (auto simp add: parse_group4_questions_def r_def)
  then show ?thesis
    by (simp add: error_result_def embed_color_def red_def blue_def)
qed

theorem blue_unreachable_witness:
  "embed_color example_result = Inr orange \<and> embed_color example_result \<noteq> Inr blue"
  using blue_unreachable[OF example_parse]
  by (simp add: example_result_def orange_def blue_def)

end
